theory Spec2Isabelle
  imports Complex_Main
begin

section \<open>Errors\<close>

text \<open>
  The failures of \<^verbatim>\<open>lingvo/core/bn_layers.py\<close> as values: a Python \<^verbatim>\<open>assert\<close>
  in layer code or a graph assertion on ranks (\<open>AssertionError\<close>), a failed shape
  contract (\<^verbatim>\<open>py_utils.HasShape\<close>, a reshape to a shape of another size, a
  negative dimension; \<open>ShapeError\<close>), a failed run-time check on values
  (\<^verbatim>\<open>py_utils.assert_greater_equal\<close>; \<open>ValueCheckError\<close>), a missing key of the
  state map (\<open>AttributeError\<close>) and an operation applied to \<^verbatim>\<open>None\<close>
  (\<open>TypeError\<close>).
\<close>

datatype error = AssertionError | ShapeError | ValueCheckError | AttributeError | TypeError

definition bindE :: "error + 'a \<Rightarrow> ('a \<Rightarrow> error + 'b) \<Rightarrow> error + 'b" where
  "bindE m f = (case m of Inl e \<Rightarrow> Inl e | Inr x \<Rightarrow> f x)"

definition check :: "bool \<Rightarrow> error \<Rightarrow> error + unit" where
  "check c e = (if c then Inr () else Inl e)"

section \<open>Tensors\<close>

text \<open>
  A tensor is a shape, an element type and a value at every index (a list of
  positions, one per axis); only the values at the indices inside the shape mean
  anything. Element values are real numbers: rounding is not modelled, so a cast
  between floating-point types keeps every value, and a cast to \<open>int32\<close> truncates
  towards zero.
\<close>

datatype dtype = float32 | bfloat16 | int32

record tensor =
  shape :: "nat list"
  val :: "nat list \<Rightarrow> real"
  dtype :: dtype

definition rank :: "tensor \<Rightarrow> nat" where
  "rank x = length (shape x)"

text \<open>All indices inside a shape, in row-major order.\<close>

fun indices :: "nat list \<Rightarrow> nat list list" where
  "indices [] = [[]]"
| "indices (d # s) = concat (map (\<lambda>k. map ((#) k) (indices s)) [0..<d])"

definition valid_index :: "nat list \<Rightarrow> nat list \<Rightarrow> bool" where
  "valid_index s i = list_all2 (\<lambda>k d. k < d) i s"

definition flat_index :: "nat list \<Rightarrow> nat list \<Rightarrow> nat" where
  "flat_index s i = foldl (\<lambda>acc (d, k). acc * d + k) 0 (zip s i)"

fun unflat_index :: "nat list \<Rightarrow> nat \<Rightarrow> nat list" where
  "unflat_index [] m = []"
| "unflat_index (d # s) m = (m div prod_list s) mod d # unflat_index s (m mod prod_list s)"

text \<open>A tensor from its values in row-major order, and back.\<close>

definition tensor_of_list :: "nat list \<Rightarrow> real list \<Rightarrow> tensor" where
  "tensor_of_list s xs = \<lparr> shape = s, val = (\<lambda>i. xs ! flat_index s i), dtype = float32 \<rparr>"

definition vals_of :: "tensor \<Rightarrow> real list" where
  "vals_of x = map (val x) (indices (shape x))"

text \<open>Two tensors are the same tensor when they agree on shape and inside it.\<close>

definition tensor_eq :: "tensor \<Rightarrow> tensor \<Rightarrow> bool" where
  "tensor_eq x y = (shape x = shape y \<and> vals_of x = vals_of y)"

definition scalar :: "real \<Rightarrow> dtype \<Rightarrow> tensor" where
  "scalar c dt = \<lparr> shape = [], val = (\<lambda>i. c), dtype = dt \<rparr>"

definition full :: "nat list \<Rightarrow> real \<Rightarrow> dtype \<Rightarrow> tensor" where
  "full s c dt = \<lparr> shape = s, val = (\<lambda>i. c), dtype = dt \<rparr>"

definition zeros :: "nat list \<Rightarrow> dtype \<Rightarrow> tensor" where
  "zeros s dt = full s 0 dt"

definition ones :: "nat list \<Rightarrow> dtype \<Rightarrow> tensor" where
  "ones s dt = full s 1 dt"

subsection \<open>Broadcasting\<close>

text \<open>
  Shapes are aligned at the last axis; an axis of size 1 is stretched. \<open>bidx s i\<close> is
  the index into an operand of shape \<open>s\<close> that the index \<open>i\<close> of the result reads.
\<close>

definition align :: "nat \<Rightarrow> nat list \<Rightarrow> nat list" where
  "align r s = replicate (r - length s) 1 @ s"

definition bshape :: "nat list \<Rightarrow> nat list \<Rightarrow> nat list" where
  "bshape s1 s2 =
    (let r = max (length s1) (length s2)
     in map (\<lambda>(d, e). if d = 1 then e else d) (zip (align r s1) (align r s2)))"

definition broadcastable :: "nat list \<Rightarrow> nat list \<Rightarrow> bool" where
  "broadcastable s1 s2 =
    (let r = max (length s1) (length s2)
     in list_all2 (\<lambda>d e. d = e \<or> d = 1 \<or> e = 1) (align r s1) (align r s2))"

definition bidx :: "nat list \<Rightarrow> nat list \<Rightarrow> nat list" where
  "bidx s i = map (\<lambda>(d, k). if d = 1 then 0 else k) (zip s (drop (length i - length s) i))"

definition bop :: "(real \<Rightarrow> real \<Rightarrow> real) \<Rightarrow> tensor \<Rightarrow> tensor \<Rightarrow> tensor" where
  "bop f x y = \<lparr> shape = bshape (shape x) (shape y),
     val = (\<lambda>i. f (val x (bidx (shape x) i)) (val y (bidx (shape y) i))),
     dtype = dtype x \<rparr>"

definition tmap :: "(real \<Rightarrow> real) \<Rightarrow> tensor \<Rightarrow> tensor" where
  "tmap f x = x \<lparr> val := (\<lambda>i. f (val x i)) \<rparr>"

definition squared_difference :: "tensor \<Rightarrow> tensor \<Rightarrow> tensor" where
  "squared_difference x y = bop (\<lambda>a b. (a - b) * (a - b)) x y"

definition cast :: "tensor \<Rightarrow> dtype \<Rightarrow> tensor" where
  "cast x dt =
    (if dt = int32
     then x \<lparr> val := (\<lambda>i. real_of_int (if val x i < 0 then \<lceil>val x i\<rceil> else \<lfloor>val x i\<rfloor>)),
              dtype := int32 \<rparr>
     else x \<lparr> dtype := dt \<rparr>)"

subsection \<open>Reductions, cumulative sums, shifts\<close>

definition sum_upto :: "nat \<Rightarrow> (nat \<Rightarrow> real) \<Rightarrow> real" where
  "sum_upto n f = sum_list (map f [0..<n])"

definition reduce_axis :: "nat \<Rightarrow> tensor \<Rightarrow> tensor" where
  "reduce_axis a x =
     x \<lparr> shape := (shape x)[a := 1],
         val := (\<lambda>i. sum_upto (shape x ! a) (\<lambda>k. val x (i[a := k]))) \<rparr>"

text \<open>
  \<open>expand_index axes d r i\<close> puts a 0 at every axis of \<open>axes\<close> into the index \<open>i\<close> of a
  tensor that lost these axes; \<open>d\<close> is the axis reached, \<open>r\<close> the axes still to come.
\<close>

fun expand_index :: "nat list \<Rightarrow> nat \<Rightarrow> nat \<Rightarrow> nat list \<Rightarrow> nat list" where
  "expand_index axes d 0 i = []"
| "expand_index axes d (Suc r) i =
    (if d \<in> set axes then 0 # expand_index axes (Suc d) r i
     else (case i of [] \<Rightarrow> 0 # expand_index axes (Suc d) r []
           | k # i' \<Rightarrow> k # expand_index axes (Suc d) r i'))"

definition squeeze :: "tensor \<Rightarrow> nat list \<Rightarrow> tensor" where
  "squeeze x axes =
     x \<lparr> shape := map fst (filter (\<lambda>(n, d). d \<notin> set axes) (zip (shape x) [0..<length (shape x)])),
         val := (\<lambda>i. val x (expand_index axes 0 (length (shape x)) i)) \<rparr>"

definition expand_dims :: "tensor \<Rightarrow> nat \<Rightarrow> tensor" where
  "expand_dims x a =
     x \<lparr> shape := take a (shape x) @ [1] @ drop a (shape x),
         val := (\<lambda>i. val x (take a i @ drop (Suc a) i)) \<rparr>"

definition reduce_sum :: "tensor \<Rightarrow> nat list \<Rightarrow> bool \<Rightarrow> tensor" where
  "reduce_sum x axes keepdims =
     (let r = fold reduce_axis axes x in if keepdims then r else squeeze r axes)"

definition cumsum :: "tensor \<Rightarrow> nat \<Rightarrow> tensor" where
  "cumsum x a = x \<lparr> val := (\<lambda>i. sum_upto (Suc (i ! a)) (\<lambda>k. val x (i[a := k]))) \<rparr>"

text \<open>\<^verbatim>\<open>tf.roll\<close>: the element at position \<open>j\<close> of the axis moves to \<open>(j + shift) mod n\<close>.\<close>

definition roll :: "tensor \<Rightarrow> int \<Rightarrow> nat \<Rightarrow> tensor" where
  "roll x shift a =
     x \<lparr> val := (\<lambda>i. val x (i[a := nat ((int (i ! a) - shift) mod int (shape x ! a))])) \<rparr>"

definition reshape :: "tensor \<Rightarrow> nat list \<Rightarrow> tensor" where
  "reshape x s = x \<lparr> shape := s, val := (\<lambda>i. val x (unflat_index (shape x) (flat_index s i))) \<rparr>"

definition repeat :: "real \<Rightarrow> nat \<Rightarrow> tensor" where
  "repeat c n = \<lparr> shape = [n], val = (\<lambda>i. c), dtype = int32 \<rparr>"

text \<open>
  A slice \<^verbatim>\<open>x[..., start:stop, ...]\<close> along axis \<open>a\<close>; as in Python the bounds are
  clipped to the size of the axis.
\<close>

definition slice_axis :: "tensor \<Rightarrow> nat \<Rightarrow> nat \<Rightarrow> nat \<Rightarrow> tensor" where
  "slice_axis x a start stop =
     x \<lparr> shape := (shape x)[a := min stop (shape x ! a) - min start (shape x ! a)],
         val := (\<lambda>i. val x (i[a := i ! a + start])) \<rparr>"

definition concat2 :: "nat \<Rightarrow> tensor \<Rightarrow> tensor \<Rightarrow> tensor" where
  "concat2 a x y =
     x \<lparr> shape := (shape x)[a := shape x ! a + shape y ! a],
         val := (\<lambda>i. if i ! a < shape x ! a then val x i
                      else val y (i[a := i ! a - shape x ! a])) \<rparr>"

text \<open>\<^verbatim>\<open>tf.concat\<close> of a non-empty list of tensors along one axis.\<close>

definition tf_concat :: "tensor list \<Rightarrow> nat \<Rightarrow> tensor" where
  "tf_concat xs a = foldl (concat2 a) (hd xs) (tl xs)"

text \<open>
  \<^verbatim>\<open>tf.reverse_sequence\<close> with \<^verbatim>\<open>seq_axis=1, batch_axis=0\<close>: in row \<open>b\<close> the first
  \<open>seq_lengths[b]\<close> positions of axis 1 are reversed, the others stay.
\<close>

definition reverse_sequence :: "tensor \<Rightarrow> tensor \<Rightarrow> tensor" where
  "reverse_sequence x seq_lengths =
     x \<lparr> val := (\<lambda>i. let l = nat \<lfloor>val seq_lengths [i ! 0]\<rfloor>
                      in if i ! 1 < l then val x (i[1 := l - 1 - i ! 1]) else val x i) \<rparr>"

text \<open>
  \<^verbatim>\<open>tf.gather_nd(x, index, batch_dims=1)\<close> for an index tensor of shape \<open>[b, 1]\<close>:
  row \<open>b\<close> of the result is \<^verbatim>\<open>x[b, index[b, 0]]\<close>.
\<close>

definition gather_nd :: "tensor \<Rightarrow> tensor \<Rightarrow> tensor" where
  "gather_nd x index =
     x \<lparr> shape := hd (shape x) # drop 2 (shape x),
         val := (\<lambda>i. val x (hd i # nat \<lfloor>val index [hd i, 0]\<rfloor> # tl i)) \<rparr>"

text \<open>An integer index at axis 1, \<^verbatim>\<open>x[:, k, ...]\<close>: the axis disappears.\<close>

definition index_axis1 :: "tensor \<Rightarrow> nat \<Rightarrow> tensor" where
  "index_axis1 x k =
     x \<lparr> shape := hd (shape x) # drop 2 (shape x),
         val := (\<lambda>i. val x (hd i # k # tl i)) \<rparr>"

text \<open>\<^verbatim>\<open>x[:, :, 0, 0]\<close> on a tensor of rank 4.\<close>

definition index_00 :: "tensor \<Rightarrow> tensor" where
  "index_00 x = x \<lparr> shape := take 2 (shape x), val := (\<lambda>i. val x (take 2 i @ [0, 0])) \<rparr>"

section \<open>Helpers of \<^verbatim>\<open>py_utils\<close>\<close>

text \<open>
  Modelled from the spec: \<^verbatim>\<open>py_utils.ApplyPadding(padding, x)\<close> is not in the
  sources at hand. A padding mask holds 0 (valid) or 1 (padded); where the mask,
  broadcast against \<open>x\<close>, is padded the result is exactly 0, elsewhere it is \<open>x\<close>.
\<close>

definition ApplyPadding :: "tensor \<Rightarrow> tensor \<Rightarrow> tensor" where
  "ApplyPadding padding x =
     \<lparr> shape = bshape (shape padding) (shape x),
       val = (\<lambda>i. if val padding (bidx (shape padding) i) > 0 then 0
                   else val x (bidx (shape x) i)),
       dtype = dtype x \<rparr>"

text \<open>
  Modelled from the spec: \<^verbatim>\<open>py_utils.PaddingsFromLengths(lengths, maxlen)\<close>, the
  mask of shape \<open>[b, maxlen]\<close> that is 0 at the positions before \<open>lengths[b]\<close> and 1
  from there on (the validity mask "keyed to position \<open>\<ge> window_size\<close>" when the
  lengths are the window size).
\<close>

definition PaddingsFromLengths :: "tensor \<Rightarrow> nat \<Rightarrow> tensor" where
  "PaddingsFromLengths lengths maxlen =
     \<lparr> shape = [hd (shape lengths), maxlen],
       val = (\<lambda>i. if real (i ! 1) < val lengths [i ! 0] then 0 else 1),
       dtype = float32 \<rparr>"

text \<open>
  Modelled from the spec: \<^verbatim>\<open>py_utils.LengthsFromPaddings(paddings)\<close> for a mask
  of shape \<open>[b, t]\<close>: the length of each row without its trailing padding, that is
  the position after the last valid one, and 0 for a row that is all padding.
\<close>

definition LengthsFromPaddings :: "tensor \<Rightarrow> tensor" where
  "LengthsFromPaddings paddings =
     \<lparr> shape = [hd (shape paddings)],
       val = (\<lambda>i. real (length (dropWhile (\<lambda>v. v > 0)
                (rev (map (\<lambda>k. val paddings [i ! 0, k]) [0..<shape paddings ! 1]))))),
       dtype = int32 \<rparr>"

text \<open>
  Modelled from the spec: \<^verbatim>\<open>py_utils.ConcatenatePaddedSequences(input0, input1,
  padding0, padding1, seq_dim=1)\<close>, the variable-length concatenation of two
  batches of sequences that have no leading padding. It is built from
  \<^verbatim>\<open>tf.reverse_sequence\<close> and \<^verbatim>\<open>tf.concat\<close>: per row, the valid frames of
  \<open>input0\<close>, then all of \<open>input1\<close>, then the padded tail of \<open>input0\<close>; the paddings are
  concatenated the same way without reversing \<open>padding1\<close>.
\<close>

definition ConcatenatePaddedSequences ::
  "tensor \<Rightarrow> tensor \<Rightarrow> tensor \<Rightarrow> tensor \<Rightarrow> tensor \<times> tensor" where
  "ConcatenatePaddedSequences input0 input1 padding0 padding1 =
    (let batch_size = hd (shape padding0);
         input0_seq_dim = repeat (real (shape padding0 ! 1)) batch_size;
         input1_seq_dim = repeat (real (shape padding1 ! 1)) batch_size;
         seq_length0 = LengthsFromPaddings padding0;
         seq_length1 = LengthsFromPaddings padding1;
         reversed_input0 = reverse_sequence input0 seq_length0;
         reversed_input1 = reverse_sequence input1 input1_seq_dim;
         reversed_concat = tf_concat [reversed_input1, reversed_input0] 1;
         concat_inputs = reverse_sequence reversed_concat (bop (+) seq_length0 input1_seq_dim);
         reversed_padding0 = reverse_sequence padding0 input0_seq_dim;
         reversed_concat_padding = tf_concat [reversed_padding0, padding1] 1;
         concat_paddings = reverse_sequence reversed_concat_padding
                             (bop (+) input0_seq_dim seq_length1)
     in (concat_inputs, concat_paddings))"

text \<open>\<^verbatim>\<open>py_utils.HasShape\<close>: the tensor itself when its shape is the expected one.\<close>

definition HasShape :: "tensor \<Rightarrow> nat list \<Rightarrow> error + tensor" where
  "HasShape x s = (if shape x = s then Inr x else Inl ShapeError)"

text \<open>\<^verbatim>\<open>tf.reshape\<close> with its check that the number of elements stays the same.\<close>

definition reshapeE :: "tensor \<Rightarrow> nat list \<Rightarrow> error + tensor" where
  "reshapeE x s = (if prod_list (shape x) = prod_list s then Inr (reshape x s) else Inl ShapeError)"

section \<open>The windowed cumulative sum and the batch moment estimator\<close>

text \<open>
  \<^verbatim>\<open>_WindowedCumSum(x, padding, window_size, cumulative_axis)\<close>, line by line.
  \<open>x\<close> has shape \<open>[b, t, n, 1]\<close> and \<open>padding\<close> shape \<open>[b, t, 1, 1]\<close>.
\<close>

definition WindowedCumSum :: "tensor \<Rightarrow> tensor \<Rightarrow> int \<Rightarrow> nat \<Rightarrow> tensor" where
  "WindowedCumSum x padding window_size cumulative_axis =
    (let x_shape = shape x;
         shifted_x = roll x window_size cumulative_axis;
         shift_mask = PaddingsFromLengths (repeat (real_of_int window_size) (x_shape ! 0))
                        (x_shape ! 1);
         shift_mask = reshape shift_mask (shape padding);
         shift_mask = ApplyPadding padding shift_mask;
         shifted_x = bop (*) shifted_x shift_mask
     in bop (-) x shifted_x)"

text \<open>
  The environment of the layer code: whether it runs on TPU, the cross-replica sum
  (the global-reduce capability, which belongs to the runtime), and the test-only
  switch \<^verbatim>\<open>py_utils.testonly_skip_norm_layers()\<close>.
\<close>

record env =
  use_tpu :: bool
  cross_replica_sum :: "tensor \<Rightarrow> tensor"
  testonly_skip_norm_layers :: bool

definition local_env :: env where
  "local_env = \<lparr> use_tpu = False, cross_replica_sum = (\<lambda>x. x),
     testonly_skip_norm_layers = False \<rparr>"

text \<open>Python's truth value of \<^verbatim>\<open>cumsum_window_size\<close>: \<^verbatim>\<open>None\<close> and 0 are false.\<close>

definition truthy :: "int option \<Rightarrow> bool" where
  "truthy w = (case w of None \<Rightarrow> False | Some n \<Rightarrow> n \<noteq> 0)"

text \<open>
  The block \<^verbatim>\<open>if cumulative_axis is not None: ...\<close> of \<^verbatim>\<open>ComputeMoments\<close>, which the
  source applies to \<open>sum_v\<close>, \<open>count_v\<close> and \<open>sum_vv\<close> alike: the cumulative sum and,
  for a true \<open>cumsum_window_size\<close>, the windowed cumulative sum with the window
  \<^verbatim>\<open>tf.minimum(cumsum_window_size, GetShape(inputs)[1])\<close>.
\<close>

definition cumulate :: "tensor \<Rightarrow> tensor \<Rightarrow> tensor \<Rightarrow> nat option \<Rightarrow> int option \<Rightarrow> tensor" where
  "cumulate v inputs padding cumulative_axis cumsum_window_size =
    (case cumulative_axis of None \<Rightarrow> v
     | Some a \<Rightarrow>
        (let c = cumsum v a
         in if truthy cumsum_window_size
            then WindowedCumSum c padding
                   (min (the cumsum_window_size) (int (shape inputs ! 1))) a
            else c))"

definition replica_sum :: "env \<Rightarrow> bool \<Rightarrow> tensor \<Rightarrow> tensor" where
  "replica_sum ev enable_cross_replica_sum_on_tpu v =
     (if use_tpu ev \<and> enable_cross_replica_sum_on_tpu then cross_replica_sum ev v else v)"

text \<open>
  The body of \<^verbatim>\<open>ComputeMoments\<close> in the order of the source; the result is
  \<open>(mean, sum_vv, count_v)\<close>, from which the last statement takes the variance.
\<close>

definition ComputeMoments_stats ::
  "env \<Rightarrow> tensor \<Rightarrow> tensor \<Rightarrow> nat list \<Rightarrow> nat option \<Rightarrow> bool \<Rightarrow> bool \<Rightarrow> int option
    \<Rightarrow> tensor \<times> tensor \<times> tensor" where
  "ComputeMoments_stats ev inputs padding reduce_over_dims cumulative_axis
      enable_cross_replica_sum_on_tpu keepdims cumsum_window_size =
    (let mask = ApplyPadding padding (scalar 1 (dtype inputs));
         sum_v = reduce_sum (ApplyPadding padding inputs) reduce_over_dims keepdims;
         count_v = reduce_sum mask reduce_over_dims keepdims;
         sum_v = cumulate sum_v inputs padding cumulative_axis cumsum_window_size;
         count_v = cumulate count_v inputs padding cumulative_axis cumsum_window_size;
         input_size_on_reduced_dims = prod_list (map ((!) (shape inputs)) reduce_over_dims);
         mask_size_on_reduced_dims = prod_list (map ((!) (shape mask)) reduce_over_dims);
         mask_multiplier = real input_size_on_reduced_dims / real mask_size_on_reduced_dims;
         count_v = tmap (\<lambda>c. c * mask_multiplier) count_v;
         sum_v = replica_sum ev enable_cross_replica_sum_on_tpu sum_v;
         count_v = replica_sum ev enable_cross_replica_sum_on_tpu count_v;
         count_v = tmap (\<lambda>c. max c 1) count_v;
         mean = bop (/) sum_v count_v;
         sum_vv = reduce_sum (ApplyPadding padding (squared_difference inputs mean))
                    reduce_over_dims keepdims;
         sum_vv = cumulate sum_vv inputs padding cumulative_axis cumsum_window_size;
         sum_vv = replica_sum ev enable_cross_replica_sum_on_tpu sum_vv
     in (mean, sum_vv, count_v))"

text \<open>
  The shape contract of \<^verbatim>\<open>ComputeMoments\<close>: the conditions under which every
  operation of the body is defined. The padding broadcasts to the shape of the
  inputs, the reduced axes exist and are distinct, the cumulative axis exists, the
  windowed sum can reshape its mask to the shape of the padding.
\<close>

definition ComputeMoments_shapes_ok ::
  "tensor \<Rightarrow> tensor \<Rightarrow> nat list \<Rightarrow> nat option \<Rightarrow> bool \<Rightarrow> int option \<Rightarrow> bool" where
  "ComputeMoments_shapes_ok inputs padding reduce_over_dims cumulative_axis keepdims
      cumsum_window_size =
    (let reduced = shape (reduce_sum (ApplyPadding padding inputs) reduce_over_dims keepdims)
     in broadcastable (shape padding) (shape inputs)
        \<and> bshape (shape padding) (shape inputs) = shape inputs
        \<and> list_all (\<lambda>a. a < rank inputs) reduce_over_dims
        \<and> distinct reduce_over_dims
        \<and> (case cumulative_axis of None \<Rightarrow> True
            | Some a \<Rightarrow> a < length reduced
                \<and> (if truthy cumsum_window_size
                    then 2 \<le> length reduced
                      \<and> reduced ! 0 * reduced ! 1 = prod_list (shape padding)
                      \<and> broadcastable reduced (shape padding)
                      \<and> bshape reduced (shape padding) = reduced
                    else True)))"

text \<open>
  \<^verbatim>\<open>ComputeMoments\<close>: the rank assertion, the shape contract, the body, whose
  mean has to broadcast against the inputs to the shape of the inputs, and the
  assertion \<^verbatim>\<open>assert_greater_equal(sum_vv, 0)\<close> that guards the variance.
\<close>

definition ComputeMoments ::
  "env \<Rightarrow> tensor \<Rightarrow> tensor \<Rightarrow> nat list \<Rightarrow> nat option \<Rightarrow> bool \<Rightarrow> bool \<Rightarrow> int option
    \<Rightarrow> error + tensor \<times> tensor" where
  "ComputeMoments ev inputs padding reduce_over_dims cumulative_axis
      enable_cross_replica_sum_on_tpu keepdims cumsum_window_size =
    bindE (check (rank inputs = rank padding) AssertionError) (\<lambda>_.
    bindE (check (ComputeMoments_shapes_ok inputs padding reduce_over_dims cumulative_axis
                    keepdims cumsum_window_size) ShapeError) (\<lambda>_.
    case ComputeMoments_stats ev inputs padding reduce_over_dims cumulative_axis
           enable_cross_replica_sum_on_tpu keepdims cumsum_window_size of
      (mean, sum_vv, count_v) \<Rightarrow>
    bindE (check (broadcastable (shape inputs) (shape mean)
                  \<and> bshape (shape inputs) (shape mean) = shape inputs) ShapeError) (\<lambda>_.
    bindE (check (list_all (\<lambda>i. 0 \<le> val sum_vv i) (indices (shape sum_vv))) ValueCheckError)
      (\<lambda>_. Inr (mean, bop (/) sum_vv count_v)))))"

text \<open>The values of a result of \<^verbatim>\<open>ComputeMoments\<close>, in row-major order.\<close>

definition moments_values :: "error + tensor \<times> tensor \<Rightarrow> error + real list \<times> real list" where
  "moments_values r = (case r of Inl e \<Rightarrow> Inl e | Inr (m, v) \<Rightarrow> Inr (vals_of m, vals_of v))"


section \<open>GroupNormLayer: parameters and construction\<close>

text \<open>
  \<^verbatim>\<open>GroupNormLayer.Params\<close>, with the name and the element type that the layer
  inherits from \<^verbatim>\<open>BaseLayer\<close>. Python integers are unbounded, so they are \<open>int\<close>;
  \<open>mod\<close> and \<open>div\<close> on \<open>int\<close> round towards minus infinity as Python's
  \<^verbatim>\<open>%\<close> and \<^verbatim>\<open>//\<close> do.
\<close>

record GroupNormParams =
  p_name :: string
  p_dtype :: dtype
  p_dim :: int
  p_num_groups :: int
  p_min_group_size :: int
  p_cumulative :: bool
  p_window_size :: int
  p_enable_cross_replica_sum_on_tpu :: bool
  p_input_rank :: int
  p_epsilon :: real

text \<open>The defaults of \<^verbatim>\<open>GroupNormLayer.Params\<close>, with a name and a dimension filled in.\<close>

definition Params :: "string \<Rightarrow> int \<Rightarrow> GroupNormParams" where
  "Params nm d = \<lparr> p_name = nm, p_dtype = float32, p_dim = d, p_num_groups = 32,
     p_min_group_size = 1, p_cumulative = False, p_window_size = 0,
     p_enable_cross_replica_sum_on_tpu = False, p_input_rank = 4,
     p_epsilon = 1 / 1000 \<rparr>"

text \<open>
  \<^verbatim>\<open>GroupNormLayer.__init__\<close>: the assertions in the order of the source. The first
  one that fails ends the construction.
\<close>

definition init :: "GroupNormParams \<Rightarrow> error + GroupNormParams" where
  "init p =
    (if p_name p = [] then Inl AssertionError
     else if \<not> p_num_groups p > 0 then Inl AssertionError
     else if \<not> p_min_group_size p > 0 then Inl AssertionError
     else if \<not> p_dim p mod p_min_group_size p = 0 then Inl AssertionError
     else if p_dim p \<ge> p_num_groups p \<and> \<not> p_dim p mod p_num_groups p = 0
       then Inl AssertionError
     else if p_window_size p > 0 \<and> \<not> p_cumulative p then Inl AssertionError
     else if p_window_size p > 0 \<and> \<not> p_window_size p > 1 then Inl AssertionError
     else Inr p)"

text \<open>The property \<^verbatim>\<open>GroupNormLayer.group_size\<close>, with its own assertion.\<close>

definition group_size :: "GroupNormParams \<Rightarrow> error + int" where
  "group_size p =
    (if \<not> p_min_group_size p \<le> p_dim p then Inl AssertionError
     else Inr (max (p_dim p div p_num_groups p) (p_min_group_size p)))"

text \<open>The property \<^verbatim>\<open>GroupNormLayer.num_groups\<close>: \<^verbatim>\<open>p.dim // self.group_size\<close>.\<close>

definition num_groups :: "GroupNormParams \<Rightarrow> error + int" where
  "num_groups p = bindE (group_size p) (\<lambda>gs. Inr (p_dim p div gs))"

section \<open>Streaming state\<close>

text \<open>
  The \<^verbatim>\<open>NestedMap\<close> that \<^verbatim>\<open>zero_state\<close> returns has one of three sets of keys:
  none (not cumulative), \<open>cached_sum, cached_count, cached_var\<close> (cumulative), or
  \<open>cached_sums, cached_vars, cached_count\<close> (windowed). Reading a key that the map
  does not have fails.
\<close>

datatype state =
    EmptyState
  | CumulativeState tensor tensor tensor
  | WindowedState tensor tensor tensor

definition state_cached_sum :: "state \<Rightarrow> error + tensor" where
  "state_cached_sum st = (case st of CumulativeState s c v \<Rightarrow> Inr s | _ \<Rightarrow> Inl AttributeError)"

definition state_cached_var :: "state \<Rightarrow> error + tensor" where
  "state_cached_var st = (case st of CumulativeState s c v \<Rightarrow> Inr v | _ \<Rightarrow> Inl AttributeError)"

definition state_cached_sums :: "state \<Rightarrow> error + tensor" where
  "state_cached_sums st = (case st of WindowedState s v c \<Rightarrow> Inr s | _ \<Rightarrow> Inl AttributeError)"

definition state_cached_vars :: "state \<Rightarrow> error + tensor" where
  "state_cached_vars st = (case st of WindowedState s v c \<Rightarrow> Inr v | _ \<Rightarrow> Inl AttributeError)"

definition state_cached_count :: "state \<Rightarrow> error + tensor" where
  "state_cached_count st =
    (case st of CumulativeState s c v \<Rightarrow> Inr c | WindowedState s v c \<Rightarrow> Inr c
     | EmptyState \<Rightarrow> Inl AttributeError)"

text \<open>\<^verbatim>\<open>GroupNormLayer.zero_state(batch_size)\<close>.\<close>

definition zero_state :: "GroupNormParams \<Rightarrow> nat \<Rightarrow> error + state" where
  "zero_state p batch_size =
    bindE (num_groups p) (\<lambda>num_groups.
      if \<not> p_cumulative p then Inr EmptyState
      else
        (let cached_count_shape = [batch_size, 1, 1, 1];
             cached_count = zeros cached_count_shape (p_dtype p)
         in if p_window_size p > 1
            then
              (let cached_moment_shape =
                     [batch_size, nat (p_window_size p), nat num_groups, 1];
                   cached_sums = zeros cached_moment_shape (p_dtype p);
                   cached_vars = zeros cached_moment_shape (p_dtype p)
               in Inr (WindowedState cached_sums cached_vars cached_count))
            else
              (let cached_moment_shape = [batch_size, 1, nat num_groups, 1];
                   cached_sum = zeros cached_moment_shape (p_dtype p);
                   cached_var = zeros cached_moment_shape (p_dtype p)
               in Inr (CumulativeState cached_sum cached_count cached_var))))"

section \<open>The streaming moment estimator\<close>

text \<open>
  \<^verbatim>\<open>GroupNormLayer._StreamMoments(inputs, paddings, state)\<close> for inputs of shape
  \<open>[b, t, n, g]\<close> or \<open>[b, t, f, n, g]\<close>. The last frame of the running sums is the new
  state: \<^verbatim>\<open>sum_v[:, -1:]\<close>.
\<close>

definition last_frame :: "tensor \<Rightarrow> tensor" where
  "last_frame x = slice_axis x 1 (shape x ! 1 - 1) (shape x ! 1)"

definition StreamMoments ::
  "tensor \<Rightarrow> tensor option \<Rightarrow> state \<Rightarrow> error + tensor \<times> tensor \<times> state" where
  "StreamMoments inputs paddings st =
    bindE (check (rank inputs = 4 \<or> rank inputs = 5) AssertionError) (\<lambda>_.
    let input_rank = rank inputs;
        input_shape = shape inputs;
        b = input_shape ! 0;
        t = input_shape ! 1;
        n = (if input_rank = 4 then input_shape ! 2 else input_shape ! 3);
        reduce_over_dims = (if input_rank = 4 then [3] else [2, 4]);
        multiplier = (if input_rank = 4 then input_shape ! 3
                      else input_shape ! 2 * input_shape ! 4);
        paddings_shape = (if input_rank = 4 then [b, t, 1, 1] else [b, t, 1, 1, 1])
    in
    bindE (case paddings of None \<Rightarrow> Inr None
           | Some pd \<Rightarrow> bindE (HasShape pd paddings_shape) (\<lambda>pd. Inr (Some pd))) (\<lambda>paddings.
    bindE (bindE (state_cached_sum st) (\<lambda>x. HasShape x [b, 1, n, 1])) (\<lambda>cached_sum.
    bindE (bindE (state_cached_count st) (\<lambda>x. HasShape x [b, 1, 1, 1])) (\<lambda>cached_count.
    bindE (bindE (state_cached_var st) (\<lambda>x. HasShape x [b, 1, n, 1])) (\<lambda>cached_var.
    let cached_sum = (if input_rank = 5 then expand_dims cached_sum 2 else cached_sum);
        cached_count = (if input_rank = 5 then expand_dims cached_count 2 else cached_count);
        cached_var = (if input_rank = 5 then expand_dims cached_var 2 else cached_var);
        sum_v = inputs;
        sum_v = (case paddings of None \<Rightarrow> sum_v | Some pd \<Rightarrow> ApplyPadding pd sum_v);
        sum_v = reduce_sum sum_v reduce_over_dims True;
        sum_v = cumsum sum_v 1;
        sum_v = bop (+) sum_v cached_sum;
        count_v = scalar (real multiplier) (dtype inputs);
        count_v = (case paddings of None \<Rightarrow> full paddings_shape (real multiplier) (dtype inputs)
                   | Some pd \<Rightarrow> ApplyPadding pd count_v);
        count_v = reduce_sum count_v reduce_over_dims True;
        count_v = cumsum count_v 1;
        count_v = bop (+) count_v cached_count;
        mean = bop (/) sum_v (tmap (\<lambda>c. max c 1) count_v);
        sum_vv = squared_difference inputs mean;
        sum_vv = (case paddings of None \<Rightarrow> sum_vv | Some pd \<Rightarrow> ApplyPadding pd sum_vv);
        sum_vv = reduce_sum sum_vv reduce_over_dims True;
        sum_vv = cumsum sum_vv 1;
        sum_vv = bop (+) sum_vv cached_var;
        cached_sum = last_frame sum_v;
        cached_count = last_frame count_v;
        cached_var = last_frame sum_vv;
        cached_sum = (if input_rank = 5 then squeeze cached_sum [2] else cached_sum);
        cached_count = (if input_rank = 5 then squeeze cached_count [2] else cached_count);
        cached_var = (if input_rank = 5 then squeeze cached_var [2] else cached_var);
        variance = bop (/) sum_vv (tmap (\<lambda>c. max c 1) count_v)
    in Inr (mean, variance, CumulativeState cached_sum cached_count cached_var))))))"

section \<open>The windowed streaming moment estimator\<close>

text \<open>
  The local functions of \<^verbatim>\<open>GroupNormLayer._StreamWindowedMoments\<close>, with the
  variables they capture as arguments. The flag \<open>single\<close> is the value of the test
  \<^verbatim>\<open>b == 1\<close> that selects the slicing path; counts and lengths are non-negative
  whole numbers held in tensors, read as positions with \<open>nat \<lfloor>_\<rfloor>\<close>.
\<close>

definition GetUpdatedCount :: "nat \<Rightarrow> nat \<Rightarrow> dtype \<Rightarrow> tensor \<Rightarrow> tensor \<Rightarrow> tensor" where
  "GetUpdatedCount b window_size dt previous_count current_paddings =
    (let count_v = scalar 1 dt;
         count_v = ApplyPadding current_paddings count_v;
         count_v = reduce_sum count_v [3] True;
         count_v = cumsum count_v 1;
         count_v = tmap (\<lambda>c. min c (real window_size))
                     (bop (+) count_v (reshape previous_count [b, 1, 1, 1]))
     in count_v)"

definition TrimFromTheFront ::
  "bool \<Rightarrow> nat \<Rightarrow> nat \<Rightarrow> tensor \<Rightarrow> tensor \<Rightarrow> tensor \<Rightarrow> nat \<Rightarrow> error + tensor" where
  "TrimFromTheFront single b n x trim_len keep_len output_len =
    (let trim_len = cast trim_len int32;
         keep_len = cast keep_len int32
     in if single
        then
          (let trimmed_x = slice_axis x 1 (nat \<lfloor>val trim_len [0]\<rfloor>)
                             (nat \<lfloor>val trim_len [0]\<rfloor> + output_len)
           in reshapeE trimmed_x [b, output_len, n, 1])
        else
          (let total_len = bop (+) trim_len keep_len;
               max_seq_len = shape x ! 1;
               rev_x = reverse_sequence x total_len;
               trim_paddings = PaddingsFromLengths keep_len max_seq_len
           in bindE (reshapeE trim_paddings [b, max_seq_len, 1, 1]) (\<lambda>trim_paddings.
              let trimmed_rev_x = ApplyPadding trim_paddings rev_x;
                  trimmed_x = reverse_sequence trimmed_rev_x keep_len
              in Inr (slice_axis trimmed_x 1 0 output_len))))"

text \<open>
  \<^verbatim>\<open>_ComputeWindowedCumSum\<close> in three parts. First the part that both paths share:
  the current input is masked, summed over the group (and over \<open>F\<close> for rank 5)
  and accumulated along the time axis; the paddings are squeezed to \<open>[b, t]\<close>.
\<close>

definition reduce_current :: "nat \<Rightarrow> tensor \<Rightarrow> tensor \<Rightarrow> tensor \<times> tensor" where
  "reduce_current input_rank current_input current_paddings =
    (let sum_input_over_dims = (if input_rank = 4 then [3] else [2, 4]);
         current_input =
           (if input_rank = 5 then ApplyPadding (expand_dims current_paddings 4) current_input
            else ApplyPadding current_paddings current_input);
         current_paddings = squeeze current_paddings [2, 3];
         current_input = reduce_sum current_input sum_input_over_dims True;
         current_input = (if input_rank = 5 then squeeze current_input [2] else current_input);
         current_input = cumsum current_input 1
     in (current_input, current_paddings))"

text \<open>The branch \<^verbatim>\<open>if b == 1\<close>: the concatenation by slicing.\<close>

definition concat_single ::
  "nat \<Rightarrow> nat \<Rightarrow> nat \<Rightarrow> nat \<Rightarrow> tensor \<Rightarrow> tensor \<Rightarrow> tensor \<Rightarrow> tensor \<Rightarrow> tensor \<Rightarrow> tensor
    \<Rightarrow> tensor \<Rightarrow> error + tensor \<times> tensor" where
  "concat_single b t n window_size cached_count last_index current_input_lenghts
      current_input current_paddings cached cached_paddings =
    bindE (reshapeE (index_axis1 cached (nat \<lfloor>val last_index [0, 0]\<rfloor>)) [b, 1, n, 1])
      (\<lambda>last.
    let current_input = bop (+) current_input last;
        cached_count_int32 = cast cached_count int32;
        cc = nat \<lfloor>val cached_count_int32 [0]\<rfloor>;
        len = nat \<lfloor>val current_input_lenghts [0]\<rfloor>
    in
    bindE (check (cc + len \<le> window_size + t) ShapeError) (\<lambda>_.
    let num_padded_frames = window_size + t - cc - len;
        concat = tf_concat
          [slice_axis cached 1 0 cc,
           slice_axis current_input 1 0 len,
           zeros [b, num_padded_frames, n, 1] (dtype cached)] 1;
        concat_paddings = tf_concat
          [slice_axis cached_paddings 1 0 cc,
           slice_axis current_paddings 1 0 len,
           ones [b, num_padded_frames] (dtype cached_paddings)] 1
    in
    bindE (reshapeE concat [b, window_size + t, n, 1]) (\<lambda>concat.
    bindE (reshapeE concat_paddings [b, window_size + t]) (\<lambda>concat_paddings.
    Inr (concat, concat_paddings)))))"

text \<open>The other branch: \<^verbatim>\<open>tf.gather_nd\<close> and \<^verbatim>\<open>ConcatenatePaddedSequences\<close>.\<close>

definition concat_batch ::
  "nat \<Rightarrow> nat \<Rightarrow> tensor \<Rightarrow> tensor \<Rightarrow> tensor \<Rightarrow> tensor \<Rightarrow> tensor
    \<Rightarrow> error + tensor \<times> tensor" where
  "concat_batch b n last_index current_input current_paddings cached cached_paddings =
    bindE (reshapeE (gather_nd cached last_index) [b, 1, n, 1]) (\<lambda>last.
    let current_input = bop (+) current_input last
    in Inr (ConcatenatePaddedSequences cached current_input cached_paddings
              current_paddings))"

definition ComputeWindowedCumSum ::
  "bool \<Rightarrow> nat \<Rightarrow> nat \<Rightarrow> nat \<Rightarrow> nat \<Rightarrow> nat \<Rightarrow> tensor \<Rightarrow> tensor \<Rightarrow> tensor
    \<Rightarrow> tensor \<Rightarrow> tensor \<Rightarrow> tensor \<Rightarrow> tensor \<Rightarrow> error + tensor \<times> tensor \<times> tensor" where
  "ComputeWindowedCumSum single input_rank b t n window_size cached_count last_index
      current_input_lenghts current_input current_paddings cached cached_paddings =
    (case reduce_current input_rank current_input current_paddings of
       (current_input, current_paddings) \<Rightarrow>
     bindE
      (if single
       then concat_single b t n window_size cached_count last_index current_input_lenghts
              current_input current_paddings cached cached_paddings
       else concat_batch b n last_index current_input current_paddings cached
              cached_paddings)
      (\<lambda>(concat, concat_paddings).
     bindE (check (b \<noteq> 0 \<and> b dvd prod_list (shape concat_paddings)) ShapeError) (\<lambda>_.
     let concat_paddings =
           reshape concat_paddings [b, prod_list (shape concat_paddings) div b, 1, 1];
         windowed_cumsum = WindowedCumSum concat concat_paddings (int window_size) 1
     in
     bindE (TrimFromTheFront single b n windowed_cumsum cached_count current_input_lenghts t)
       (\<lambda>cumsum. Inr (cumsum, concat, concat_paddings)))))"

text \<open>
  \<^verbatim>\<open>_StreamWindowedMoments\<close> with the path chosen by \<open>single\<close>; the method itself
  chooses by the batch size.
\<close>

definition StreamWindowedMoments_path ::
  "bool \<Rightarrow> GroupNormParams \<Rightarrow> tensor \<Rightarrow> tensor option \<Rightarrow> state
    \<Rightarrow> error + tensor \<times> tensor \<times> state" where
  "StreamWindowedMoments_path single p inputs paddings st =
    bindE (check (rank inputs = 4 \<or> rank inputs = 5) AssertionError) (\<lambda>_.
    bindE (check (0 \<le> p_window_size p) ShapeError) (\<lambda>_.
    let window_size = nat (p_window_size p);
        input_rank = rank inputs;
        input_shape = shape inputs;
        b = input_shape ! 0;
        t = input_shape ! 1;
        n = (if input_rank = 4 then input_shape ! 2 else input_shape ! 3);
        multiplier = (if input_rank = 4 then input_shape ! 3
                      else input_shape ! 2 * input_shape ! 4);
        paddings_shape = (if input_rank = 4 then [b, t, 1, 1] else [b, t, 1, 1, 1])
    in
    bindE (case paddings of None \<Rightarrow> Inr (zeros paddings_shape float32)
           | Some pd \<Rightarrow> HasShape pd paddings_shape) (\<lambda>paddings.
    let paddings = (if input_rank = 5 then squeeze paddings [2] else paddings)
    in
    bindE (bindE (state_cached_count st) (\<lambda>x. HasShape x [b, 1, 1, 1])) (\<lambda>cached_count.
    bindE (bindE (state_cached_sums st) (\<lambda>x. HasShape x [b, window_size, n, 1])) (\<lambda>cached_sums.
    bindE (bindE (state_cached_vars st) (\<lambda>x. HasShape x [b, window_size, n, 1])) (\<lambda>cached_vars.
    let cached_count = squeeze cached_count [1, 2, 3];
        cached_paddings = PaddingsFromLengths cached_count window_size;
        last_index = tmap (\<lambda>c. max c 0) (tmap (\<lambda>c. c - 1) cached_count);
        last_index = expand_dims last_index 1;
        last_index = cast last_index int32;
        current_input_lenghts = LengthsFromPaddings (index_00 paddings);
        current_input_lenghts = cast current_input_lenghts int32
    in
    bindE (ComputeWindowedCumSum single input_rank b t n window_size cached_count last_index
             current_input_lenghts inputs paddings cached_sums cached_paddings)
      (\<lambda>(sum_v, concat_sum_v, concat_paddings).
    let count_v = GetUpdatedCount b window_size (dtype inputs) cached_count paddings;
        mean = bop (/) sum_v (tmap (\<lambda>c. max (c * real multiplier) 1) count_v);
        mean = (if input_rank = 5 then expand_dims mean 2 else mean)
    in
    bindE (ComputeWindowedCumSum single input_rank b t n window_size cached_count last_index
             current_input_lenghts (squared_difference inputs mean) paddings cached_vars
             cached_paddings)
      (\<lambda>(sum_vv, concat_sum_vv, _).
    let variance = bop (/) sum_vv (tmap (\<lambda>c. max (c * real multiplier) 1) count_v);
        variance = (if input_rank = 5 then expand_dims variance 2 else variance);
        input_len = LengthsFromPaddings (index_00 concat_paddings);
        input_len = cast input_len float32;
        new_cached_count = tmap (\<lambda>c. min c (real window_size)) input_len
    in
    bindE (TrimFromTheFront single b n concat_sum_v (bop (-) input_len new_cached_count)
             new_cached_count window_size) (\<lambda>new_cached_sums.
    bindE (TrimFromTheFront single b n concat_sum_vv (bop (-) input_len new_cached_count)
             new_cached_count window_size) (\<lambda>new_cached_vars.
    let new_cached_count = reshape new_cached_count [b, 1, 1, 1]
    in Inr (mean, variance,
            WindowedState new_cached_sums new_cached_vars new_cached_count)))))))))))"

definition StreamWindowedMoments ::
  "GroupNormParams \<Rightarrow> tensor \<Rightarrow> tensor option \<Rightarrow> state \<Rightarrow> error + tensor \<times> tensor \<times> state"
  where
  "StreamWindowedMoments p inputs paddings st =
     StreamWindowedMoments_path (shape inputs ! 0 = 1) p inputs paddings st"

section \<open>Normalization and the layer entry points\<close>

text \<open>The weights of the layer: \<^verbatim>\<open>theta.gamma\<close> and \<^verbatim>\<open>theta.beta\<close>.\<close>

record theta =
  gamma :: tensor
  beta :: tensor

text \<open>\<^verbatim>\<open>tf.math.rsqrt\<close>, the inverse square root.\<close>

definition rsqrt :: "real \<Rightarrow> real" where
  "rsqrt v = 1 / sqrt v"

text \<open>\<^verbatim>\<open>tf.reshape(x, [p.dim])\<close>.\<close>

definition reshape_dim :: "tensor \<Rightarrow> int \<Rightarrow> error + tensor" where
  "reshape_dim x d =
     (if int (prod_list (shape x)) = d then Inr (reshape x [nat d]) else Inl ShapeError)"

text \<open>
  \<^verbatim>\<open>GroupNormLayer._ApplyGammaBeta\<close>: the scale in use is \<open>1 + gamma\<close>, flattened to
  one axis, and the shift is \<open>beta\<close>.
\<close>

definition ApplyGammaBeta :: "GroupNormParams \<Rightarrow> theta \<Rightarrow> tensor \<Rightarrow> error + tensor" where
  "ApplyGammaBeta p th outputs =
    bindE (reshape_dim (tmap (\<lambda>g. g + 1) (gamma th)) (p_dim p)) (\<lambda>real_gamma.
    bindE (reshape_dim (beta th) (p_dim p)) (\<lambda>real_beta.
    let real_gamma = cast real_gamma (dtype outputs);
        real_beta = cast real_beta (dtype outputs)
    in
    bindE (check (broadcastable (shape outputs) (shape real_gamma)) ShapeError) (\<lambda>_.
    Inr (bop (+) (bop (*) outputs real_gamma) real_beta))))"

text \<open>
  \<^verbatim>\<open>GroupNormLayer._Normalize\<close>. \<^verbatim>\<open>py_utils.CheckNumerics\<close> lets every real number
  pass. For \<open>bfloat16\<close> the inverse square root is taken on a \<open>float32\<close> copy and the
  result is cast back.
\<close>

definition Normalize ::
  "GroupNormParams \<Rightarrow> tensor \<Rightarrow> tensor \<Rightarrow> tensor \<Rightarrow> error + tensor" where
  "Normalize p grouped_inputs group_mean group_variance =
    (let grouped_inputs_rank = rank grouped_inputs;
         grouped_input_shape = shape grouped_inputs;
         group_moment_shape = grouped_input_shape;
         group_moment_shape =
           (if grouped_inputs_rank = 5
            then (group_moment_shape[2 := 1])[length group_moment_shape - 1 := 1]
            else group_moment_shape[length group_moment_shape - 1 := 1]);
         group_moment_shape =
           (if \<not> p_cumulative p then group_moment_shape[1 := 1] else group_moment_shape)
     in
     bindE (HasShape group_mean group_moment_shape) (\<lambda>group_mean.
     bindE (HasShape group_variance group_moment_shape) (\<lambda>group_variance.
     bindE (check (list_all (\<lambda>i. 0 \<le> val group_variance i) (indices (shape group_variance)))
              ValueCheckError) (\<lambda>_.
     let group_stddev_inv =
           (if dtype group_variance = bfloat16
            then cast (tmap rsqrt (cast (tmap (\<lambda>v. v + p_epsilon p) group_variance) float32))
                   (dtype group_mean)
            else tmap rsqrt (tmap (\<lambda>v. v + p_epsilon p) group_variance));
         output = bop (*) (bop (-) grouped_inputs group_mean) group_stddev_inv
     in Inr output))))"

text \<open>
  \<^verbatim>\<open>tf.nn.moments(x, axes, keepdims=True)\<close>: the mean over the axes and the mean
  of the squared deviations from it.
\<close>

definition nn_moments :: "tensor \<Rightarrow> nat list \<Rightarrow> tensor \<times> tensor" where
  "nn_moments x axes =
    (let cnt = real (prod_list (map ((!) (shape x)) axes));
         mean = tmap (\<lambda>s. s / cnt) (reduce_sum x axes True);
         variance = tmap (\<lambda>s. s / cnt) (reduce_sum (squared_difference x mean) axes True)
     in (mean, variance))"

text \<open>
  Modelled from the spec: \<^verbatim>\<open>BaseLayer._CastToFPropDtype\<close> is not in the sources at
  hand; by its name it casts a floating-point tensor to the element type of the
  layer's forward computation, here \<open>p_dtype\<close>, and keeps any other tensor.
\<close>

definition CastToFPropDtype :: "GroupNormParams \<Rightarrow> tensor \<Rightarrow> tensor" where
  "CastToFPropDtype p x = (if dtype x = int32 then x else cast x (p_dtype p))"

text \<open>The reshape of the features into groups, \<open>[..., dim] \<rightarrow> [..., num_groups, group_size]\<close>.\<close>

definition expand_groups :: "tensor \<Rightarrow> int \<Rightarrow> int \<Rightarrow> error + tensor" where
  "expand_groups inputs ngroups gsize =
    bindE (check (0 \<le> ngroups \<and> 0 \<le> gsize) ShapeError) (\<lambda>_.
    reshapeE inputs (butlast (shape inputs) @ [nat ngroups, nat gsize]))"

text \<open>\<^verbatim>\<open>GroupNormLayer.FProp(theta, inputs, paddings)\<close>.\<close>

definition FProp ::
  "env \<Rightarrow> GroupNormParams \<Rightarrow> theta \<Rightarrow> tensor \<Rightarrow> tensor option
    \<Rightarrow> error + tensor \<times> tensor option" where
  "FProp ev p th inputs paddings =
    (let inputs = CastToFPropDtype p inputs;
         paddings = map_option (CastToFPropDtype p) paddings
     in if testonly_skip_norm_layers ev then Inr (inputs, paddings)
     else
     let input_rank = rank inputs in
     bindE (check (input_rank = 3 \<or> input_rank = 4) AssertionError) (\<lambda>_.
     bindE (num_groups p) (\<lambda>ngroups.
     bindE (group_size p) (\<lambda>gsize.
     let input_shape = shape inputs in
     bindE (expand_groups inputs ngroups gsize) (\<lambda>expanded_inputs.
     let expanded_rank = input_rank + 1;
         all_dims = [0..<expanded_rank];
         reduce_over_dims =
           (if paddings = None \<or> \<not> p_cumulative p
            then drop 1 (take (expanded_rank - 2) all_dims) @ drop (expanded_rank - 1) all_dims
            else drop 2 (take (expanded_rank - 2) all_dims) @ drop (expanded_rank - 1) all_dims)
     in
     bindE
       (if paddings = None \<and> \<not> p_cumulative p
        then Inr (nn_moments expanded_inputs reduce_over_dims)
        else
          (case paddings of None \<Rightarrow> Inl TypeError
           | Some pd \<Rightarrow>
              bindE (reshapeE pd (take 2 input_shape @ replicate (expanded_rank - 2) 1))
                (\<lambda>expanded_paddings.
              ComputeMoments ev expanded_inputs expanded_paddings reduce_over_dims (Some 1)
                (p_enable_cross_replica_sum_on_tpu p) True (Some (p_window_size p)))))
       (\<lambda>(group_mean, group_variance).
     bindE (Normalize p expanded_inputs group_mean group_variance) (\<lambda>outputs.
     bindE (reshapeE outputs (shape inputs)) (\<lambda>outputs.
     bindE (ApplyGammaBeta p th outputs) (\<lambda>outputs.
     Inr (outputs, paddings))))))))))"

text \<open>\<^verbatim>\<open>GroupNormLayer.StreamStep(theta, inputs, paddings, state0)\<close>.\<close>

definition StreamStep ::
  "env \<Rightarrow> GroupNormParams \<Rightarrow> theta \<Rightarrow> tensor \<Rightarrow> tensor option \<Rightarrow> state
    \<Rightarrow> error + tensor \<times> tensor option \<times> state" where
  "StreamStep ev p th inputs paddings state0 =
    (if testonly_skip_norm_layers ev then Inr (inputs, paddings, state0)
     else
     bindE (check (p_cumulative p) AssertionError) (\<lambda>_.
     let input_rank = rank inputs in
     bindE (check (input_rank = 3 \<or> input_rank = 4) AssertionError) (\<lambda>_.
     bindE (group_size p) (\<lambda>gsize.
     bindE (num_groups p) (\<lambda>ngroups.
     let input_shape = shape inputs in
     bindE (expand_groups inputs ngroups gsize) (\<lambda>expanded_inputs.
     let expanded_rank = input_rank + 1 in
     bindE (case paddings of None \<Rightarrow> Inr None
            | Some pd \<Rightarrow>
               bindE (reshapeE pd (take 2 input_shape @ replicate (expanded_rank - 2) 1))
                 (\<lambda>e. Inr (Some e))) (\<lambda>expanded_paddings.
     bindE (if p_window_size p \<noteq> 0
            then StreamWindowedMoments p expanded_inputs expanded_paddings state0
            else StreamMoments expanded_inputs expanded_paddings state0)
       (\<lambda>(group_mean, group_variance, state1).
     bindE (Normalize p expanded_inputs group_mean group_variance) (\<lambda>outputs.
     bindE (reshapeE outputs input_shape) (\<lambda>outputs.
     bindE (ApplyGammaBeta p th outputs) (\<lambda>outputs.
     Inr (outputs, paddings, state1))))))))))))"

section \<open>Moments position by position\<close>

text \<open>
  The quantities of the estimators written out for one batch row \<open>b\<close>, one group
  \<open>n\<close> and one time position, for inputs of shape \<open>[B, T, N, G]\<close> and a padding of
  shape \<open>[B, T, 1, 1]\<close>: whether a position is padded, the sum of a frame over the
  group, the sums and the number of valid positions before a position \<open>k\<close>, and the
  window over such a prefix sum as \<^verbatim>\<open>_WindowedCumSum\<close> takes it.
\<close>

definition padded :: "tensor \<Rightarrow> nat \<Rightarrow> nat \<Rightarrow> bool" where
  "padded P b t = (val P [b, t, 0, 0] > 0)"

definition masked_sum :: "tensor \<Rightarrow> tensor \<Rightarrow> nat \<Rightarrow> nat \<Rightarrow> nat \<Rightarrow> real" where
  "masked_sum X P b n t =
     (if padded P b t then 0 else sum_upto (shape X ! 3) (\<lambda>g. val X [b, t, n, g]))"

definition masked_sq ::
  "tensor \<Rightarrow> tensor \<Rightarrow> (nat \<Rightarrow> real) \<Rightarrow> nat \<Rightarrow> nat \<Rightarrow> nat \<Rightarrow> real" where
  "masked_sq X P m b n t =
     (if padded P b t then 0
      else sum_upto (shape X ! 3) (\<lambda>g. (val X [b, t, n, g] - m t) * (val X [b, t, n, g] - m t)))"

definition valid_count :: "tensor \<Rightarrow> nat \<Rightarrow> nat \<Rightarrow> real" where
  "valid_count P b k = sum_upto k (\<lambda>j. if padded P b j then 0 else 1)"

definition window :: "nat option \<Rightarrow> tensor \<Rightarrow> nat \<Rightarrow> (nat \<Rightarrow> real) \<Rightarrow> nat \<Rightarrow> real" where
  "window w P b f t =
     (case w of None \<Rightarrow> f (Suc t)
      | Some w \<Rightarrow> f (Suc t) - (if w \<le> t \<and> \<not> padded P b t then f (Suc t - w) else 0))"

definition batch_count :: "nat option \<Rightarrow> tensor \<Rightarrow> tensor \<Rightarrow> nat \<Rightarrow> nat \<Rightarrow> real" where
  "batch_count w X P b t = max (window w P b (valid_count P b) t * real (shape X ! 3)) 1"

definition batch_mean ::
  "nat option \<Rightarrow> tensor \<Rightarrow> tensor \<Rightarrow> nat \<Rightarrow> nat \<Rightarrow> nat \<Rightarrow> real" where
  "batch_mean w X P b n t =
     window w P b (\<lambda>k. sum_upto k (masked_sum X P b n)) t / batch_count w X P b t"

definition batch_variance ::
  "nat option \<Rightarrow> tensor \<Rightarrow> tensor \<Rightarrow> nat \<Rightarrow> nat \<Rightarrow> nat \<Rightarrow> real" where
  "batch_variance w X P b n t =
     window w P b (\<lambda>k. sum_upto k (masked_sq X P (batch_mean w X P b n) b n)) t
       / batch_count w X P b t"

text \<open>The window that \<^verbatim>\<open>ComputeMoments\<close> uses on inputs with \<open>T\<close> time steps.\<close>

definition clamped_window :: "int option \<Rightarrow> nat \<Rightarrow> nat option" where
  "clamped_window cumsum_window_size T =
     (if truthy cumsum_window_size then Some (nat (min (the cumsum_window_size) (int T)))
      else None)"

section \<open>Feeding a sequence in chunks\<close>

text \<open>
  The streaming side of the equivalence between the two estimators: the sequence
  \<open>X\<close> with paddings \<open>P\<close> is cut along the time axis into chunks of the lengths
  \<open>ts\<close>, starting at position \<open>off\<close>, and the chunks go through the step function
  one at a time, each call receiving the state that the call before returned. The
  result is the list of the means and variances of the chunks.
\<close>

fun stream_chunks ::
  "(tensor \<Rightarrow> tensor option \<Rightarrow> state \<Rightarrow> error + tensor \<times> tensor \<times> state)
    \<Rightarrow> tensor \<Rightarrow> tensor \<Rightarrow> nat \<Rightarrow> nat list \<Rightarrow> state \<Rightarrow> error + (tensor \<times> tensor) list" where
  "stream_chunks step X P off [] st = Inr []"
| "stream_chunks step X P off (t # ts) st =
     bindE (step (slice_axis X 1 off (off + t)) (Some (slice_axis P 1 off (off + t))) st)
       (\<lambda>(m, v, st').
     bindE (stream_chunks step X P (off + t) ts st') (\<lambda>rest. Inr ((m, v) # rest)))"

text \<open>
  \<open>chunk_of Xc X off\<close>: the frames of \<open>Xc\<close> are the frames of \<open>X\<close> from position \<open>off\<close>
  on. \<open>stream_inv X P off st\<close>: the state \<open>st\<close> holds the sums over the first \<open>off\<close>
  positions of the sequence.
\<close>

definition chunk_of :: "tensor \<Rightarrow> tensor \<Rightarrow> nat \<Rightarrow> bool" where
  "chunk_of Xc X off = (\<forall>b i n g. val Xc [b, i, n, g] = val X [b, off + i, n, g])"

definition stream_inv :: "tensor \<Rightarrow> tensor \<Rightarrow> nat \<Rightarrow> state \<Rightarrow> bool" where
  "stream_inv X P off st =
    (case st of CumulativeState s c v \<Rightarrow>
       shape s = [shape X ! 0, 1, shape X ! 2, 1]
       \<and> shape c = [shape X ! 0, 1, 1, 1]
       \<and> shape v = [shape X ! 0, 1, shape X ! 2, 1]
       \<and> (\<forall>b. b < shape X ! 0 \<longrightarrow>
            val c [b, 0, 0, 0] = valid_count P b off * real (shape X ! 3))
       \<and> (\<forall>b n. b < shape X ! 0 \<and> n < shape X ! 2 \<longrightarrow>
            val s [b, 0, n, 0] = sum_upto off (masked_sum X P b n)
          \<and> val v [b, 0, n, 0] = sum_upto off (masked_sq X P (batch_mean None X P b n) b n))
     | _ \<Rightarrow> False)"


text \<open>Reading one value of a result of an estimator.\<close>

definition moments_at ::
  "error + tensor \<times> tensor \<Rightarrow> nat list \<Rightarrow> error + real \<times> real" where
  "moments_at r i = (case r of Inl e \<Rightarrow> Inl e | Inr (m, v) \<Rightarrow> Inr (val m i, val v i))"

definition step_moments_at ::
  "error + tensor \<times> tensor \<times> state \<Rightarrow> nat list \<Rightarrow> error + real \<times> real" where
  "step_moments_at r i =
     (case r of Inl e \<Rightarrow> Inl e | Inr (m, v, st) \<Rightarrow> Inr (val m i, val v i))"


section \<open>The windowed streaming step position by position\<close>

text \<open>
  \<open>row_length pad t\<close>: the length of a row of \<open>t\<close> positions without its trailing
  padding, as \<^verbatim>\<open>LengthsFromPaddings\<close> computes it.
\<close>

definition row_length :: "(nat \<Rightarrow> bool) \<Rightarrow> nat \<Rightarrow> nat" where
  "row_length pad t = length (dropWhile (\<lambda>x. x) (rev (map pad [0..<t])))"

text \<open>
  The concatenation that one row of the windowed step builds from \<open>cc\<close> cached
  frames and the first \<open>len\<close> frames of the chunk: the values, followed by zeros,
  and the padding flags, followed by padding.
\<close>

definition concat_val :: "nat \<Rightarrow> nat \<Rightarrow> (nat \<Rightarrow> real) \<Rightarrow> (nat \<Rightarrow> real) \<Rightarrow> nat \<Rightarrow> real" where
  "concat_val cc len cached cur j =
     (if j < cc then cached j else if j < cc + len then cur (j - cc) else 0)"

definition concat_pad :: "nat \<Rightarrow> nat \<Rightarrow> (nat \<Rightarrow> bool) \<Rightarrow> nat \<Rightarrow> bool" where
  "concat_pad cc len pad j =
     (if j < cc then False else if j < cc + len then pad (j - cc) else True)"

text \<open>The windowed sum at position \<open>j\<close> of a row with values \<open>f\<close> and padding flags \<open>pad\<close>.\<close>

definition windowed_at :: "nat \<Rightarrow> (nat \<Rightarrow> real) \<Rightarrow> (nat \<Rightarrow> bool) \<Rightarrow> nat \<Rightarrow> real" where
  "windowed_at w f pad j = f j - (if w \<le> j \<and> \<not> pad j then f (j - w) else 0)"

text \<open>
  One row of the windowed step: \<open>cached\<close> are the cached cumulative sums, \<open>frame\<close>
  the masked frame sums of the chunk, \<open>pad\<close> its padding flags. \<open>cum_row\<close> continues
  the cumulative sums from the last cached one, \<open>windowed_row\<close> is the windowed sum
  at position \<open>i\<close> of the chunk, \<open>step_count\<close> the number of frames in the window,
  \<open>new_count\<close> and \<open>new_cached_row\<close> the state that the step returns.
\<close>

definition cum_row :: "nat \<Rightarrow> (nat \<Rightarrow> real) \<Rightarrow> (nat \<Rightarrow> real) \<Rightarrow> nat \<Rightarrow> real" where
  "cum_row cc cached frame i = sum_upto (Suc i) frame + cached (cc - 1)"

definition windowed_row ::
  "nat \<Rightarrow> nat \<Rightarrow> nat \<Rightarrow> (nat \<Rightarrow> real) \<Rightarrow> (nat \<Rightarrow> real) \<Rightarrow> (nat \<Rightarrow> bool) \<Rightarrow> nat \<Rightarrow> real" where
  "windowed_row w cc len cached frame pad i =
     windowed_at w (concat_val cc len cached (cum_row cc cached frame)) (concat_pad cc len pad)
       (cc + i)"

definition step_count :: "nat \<Rightarrow> nat \<Rightarrow> (nat \<Rightarrow> bool) \<Rightarrow> nat \<Rightarrow> real" where
  "step_count w cc pad i =
     min (sum_upto (Suc i) (\<lambda>k. if pad k then 0 else 1) + real cc) (real w)"

definition new_count :: "nat \<Rightarrow> nat \<Rightarrow> nat \<Rightarrow> (nat \<Rightarrow> bool) \<Rightarrow> nat \<Rightarrow> nat" where
  "new_count w cc len pad t = min (row_length (concat_pad cc len pad) (w + t)) w"

definition new_cached_row ::
  "nat \<Rightarrow> nat \<Rightarrow> nat \<Rightarrow> (nat \<Rightarrow> real) \<Rightarrow> (nat \<Rightarrow> real) \<Rightarrow> (nat \<Rightarrow> bool) \<Rightarrow> nat \<Rightarrow> nat \<Rightarrow> real"
  where
  "new_cached_row w cc len cached frame pad t j =
     concat_val cc len cached (cum_row cc cached frame)
       (row_length (concat_pad cc len pad) (w + t) - new_count w cc len pad t + j)"


text \<open>
  The same quantities on the other path. \<^verbatim>\<open>ConcatenatePaddedSequences\<close> puts the whole
  chunk (\<open>t\<close> frames) after the \<open>cc\<close> cached frames and the rest of the cache behind
  it; its paddings are the first \<open>len\<close> flags of the chunk in reverse order, then
  the flags of the cache, then the other flags of the chunk. The trimming by
  \<^verbatim>\<open>tf.reverse_sequence\<close> leaves zeros behind the frames it keeps.
\<close>

definition gconcat_val :: "nat \<Rightarrow> nat \<Rightarrow> (nat \<Rightarrow> real) \<Rightarrow> (nat \<Rightarrow> real) \<Rightarrow> nat \<Rightarrow> real" where
  "gconcat_val cc t cached cur j =
     (if j < cc then cached j else if j < cc + t then cur (j - cc) else cached (j - t))"

definition gconcat_pad :: "nat \<Rightarrow> nat \<Rightarrow> nat \<Rightarrow> (nat \<Rightarrow> bool) \<Rightarrow> nat \<Rightarrow> bool" where
  "gconcat_pad w cc len pad j =
     (if j < len then pad (len - 1 - j) else if j < w + len then cc \<le> j - len
      else pad (j - w))"

definition gwindowed_row ::
  "nat \<Rightarrow> nat \<Rightarrow> nat \<Rightarrow> nat \<Rightarrow> (nat \<Rightarrow> real) \<Rightarrow> (nat \<Rightarrow> real) \<Rightarrow> (nat \<Rightarrow> bool) \<Rightarrow> nat \<Rightarrow> real"
  where
  "gwindowed_row w cc t len cached frame pad i =
     (if i < len
      then windowed_at w (gconcat_val cc t cached (cum_row cc cached frame))
             (gconcat_pad w cc len pad) (cc + i)
      else 0)"

definition gnew_count :: "nat \<Rightarrow> nat \<Rightarrow> nat \<Rightarrow> (nat \<Rightarrow> bool) \<Rightarrow> nat \<Rightarrow> nat" where
  "gnew_count w cc len pad t = min (row_length (gconcat_pad w cc len pad) (w + t)) w"

definition gnew_cached_row ::
  "nat \<Rightarrow> nat \<Rightarrow> nat \<Rightarrow> (nat \<Rightarrow> real) \<Rightarrow> (nat \<Rightarrow> real) \<Rightarrow> (nat \<Rightarrow> bool) \<Rightarrow> nat \<Rightarrow> nat \<Rightarrow> real"
  where
  "gnew_cached_row w cc len cached frame pad t j =
     (if j < gnew_count w cc len pad t
      then gconcat_val cc t cached (cum_row cc cached frame)
             (row_length (gconcat_pad w cc len pad) (w + t) - gnew_count w cc len pad t + j)
      else 0)"
section \<open>Example configurations\<close>

text \<open>
  A layer with one feature in one group, cumulative, with \<open>epsilon = 1\<close>, and two
  sets of weights: \<open>gamma = 1/2, beta = 1/4\<close>, and the initial weights \<open>gamma = 0,
  beta = 0\<close>.
\<close>

definition ex_p :: GroupNormParams where
  "ex_p = (Params ''gn'' 1) \<lparr> p_cumulative := True, p_epsilon := 1 \<rparr>"

definition ex_th :: theta where
  "ex_th = \<lparr> gamma = tensor_of_list [1, 1, 1] [1 / 2], beta = tensor_of_list [1, 1, 1] [1 / 4] \<rparr>"


text \<open>
  A sequence of two frames with one feature, \<open>[[3], [5]]\<close>, with the second frame
  padded, and the example layer with the element type \<open>bfloat16\<close>.
\<close>

definition ex_x :: tensor where
  "ex_x = tensor_of_list [1, 2, 1] [3, 5]"

definition ex_pd :: tensor where
  "ex_pd = tensor_of_list [1, 2] [0, 1]"

definition ex_p_bf :: GroupNormParams where
  "ex_p_bf = ex_p \<lparr> p_dtype := bfloat16 \<rparr>"

text \<open>Reading the parts of what \<^verbatim>\<open>FProp\<close> and \<^verbatim>\<open>StreamStep\<close> return.\<close>

definition output_shape :: "error + tensor \<times> 'a \<Rightarrow> error + nat list" where
  "output_shape r = (case r of Inl e \<Rightarrow> Inl e | Inr (out, rest) \<Rightarrow> Inr (shape out))"

definition fprop_paddings :: "error + tensor \<times> tensor option \<Rightarrow> error + tensor option" where
  "fprop_paddings r = (case r of Inl e \<Rightarrow> Inl e | Inr (out, pd) \<Rightarrow> Inr pd)"

definition step_paddings ::
  "error + tensor \<times> tensor option \<times> state \<Rightarrow> error + tensor option" where
  "step_paddings r = (case r of Inl e \<Rightarrow> Inl e | Inr (out, pd, st) \<Rightarrow> Inr pd)"
section \<open>Indices, broadcasting and shapes\<close>

lemma valid_index_length: "valid_index s i \<Longrightarrow> length i = length s"
  by (simp add: valid_index_def list_all2_lengthD)

lemma valid_index_Cons [simp]: "valid_index (d # s) (k # i) = (k < d \<and> valid_index s i)"
  by (simp add: valid_index_def)

lemma valid_index_Nil [simp]: "valid_index [] i = (i = [])"
  by (simp add: valid_index_def)

lemma valid_index_Cons_iff: "valid_index (d # s) j = (\<exists>k i. j = k # i \<and> k < d \<and> valid_index s i)"
  by (cases j) (auto simp: valid_index_def)

lemma bidx_Cons: "length i = length s \<Longrightarrow> bidx (d # s) (k # i) = (if d = 1 then 0 else k) # bidx s i"
  by (simp add: bidx_def)

lemma bidx_Nil [simp]: "bidx [] [] = []"
  by (simp add: bidx_def)

lemma bidx_valid: "valid_index s i \<Longrightarrow> bidx s i = i"
proof (induction s arbitrary: i)
  case Nil then show ?case by simp
next
  case (Cons d s)
  then obtain k i' where i: "i = k # i'" "k < d" "valid_index s i'"
    by (auto simp: valid_index_Cons_iff)
  then show ?case using Cons.IH [of i'] valid_index_length [of s i']
    by (auto simp: bidx_Cons)
qed

lemma bidx_ones: "length r = k \<Longrightarrow> bidx (replicate k (Suc 0)) r = replicate k 0"
proof (induction k arbitrary: r)
  case 0 then show ?case by simp
next
  case (Suc k)
  then obtain a r' where "r = a # r'" "length r' = k" by (cases r) auto
  then show ?case using Suc.IH [of r'] by (simp add: bidx_Cons)
qed

lemma bshape_same [simp]: "bshape s s = s"
  by (induction s) (auto simp: bshape_def align_def)

lemma bshape_Cons: "length s1 = length s2 \<Longrightarrow>
  bshape (d # s1) (e # s2) = (if d = 1 then e else d) # bshape s1 s2"
  by (simp add: bshape_def align_def)

lemma bshape_ones_left: "length s = k \<Longrightarrow> bshape (replicate k (Suc 0)) s = s"
proof (induction k arbitrary: s)
  case 0 then show ?case by (simp add: bshape_def align_def)
next
  case (Suc k)
  then obtain a s' where "s = a # s'" "length s' = k" by (cases s) auto
  then show ?case using Suc.IH [of s'] by (simp add: bshape_Cons)
qed

lemma bshape_ones_right: "length s = k \<Longrightarrow> bshape s (replicate k (Suc 0)) = s"
proof (induction k arbitrary: s)
  case 0 then show ?case by (simp add: bshape_def align_def)
next
  case (Suc k)
  then obtain a s' where "s = a # s'" "length s' = k" by (cases s) auto
  then show ?case using Suc.IH [of s'] by (simp add: bshape_Cons)
qed

lemma flat_index_ones_aux:
  "foldl (\<lambda>acc (d, k). acc * d + k) a (replicate n (Suc 0, 0)) = (a::nat)"
  by (induction n arbitrary: a) auto

lemma flat_index_bt_ones:
  "flat_index (b # t # replicate k (Suc 0)) (bi # ti # replicate k 0) = bi * t + ti"
  by (simp add: flat_index_def flat_index_ones_aux)

lemma unflat_index_bt: "bi < b \<Longrightarrow> ti < t \<Longrightarrow> unflat_index [b, t] (bi * t + ti) = [bi, ti]"
  by simp

lemma shape_bop [simp]: "shape (bop f x y) = bshape (shape x) (shape y)"
  by (simp add: bop_def)
lemma shape_roll [simp]: "shape (roll x w a) = shape x"
  by (simp add: roll_def)
lemma shape_ApplyPadding [simp]: "shape (ApplyPadding p x) = bshape (shape p) (shape x)"
  by (simp add: ApplyPadding_def)
lemma shape_reshape [simp]: "shape (reshape x s) = s"
  by (simp add: reshape_def)
lemma shape_tmap [simp]: "shape (tmap f x) = shape x"
  by (simp add: tmap_def)
lemma shape_cumsum [simp]: "shape (cumsum x a) = shape x"
  by (simp add: cumsum_def)
lemma val_bop: "val (bop f x y) i = f (val x (bidx (shape x) i)) (val y (bidx (shape y) i))"
  by (simp add: bop_def)
lemma val_tmap [simp]: "val (tmap f x) i = f (val x i)"
  by (simp add: tmap_def)
lemma val_ApplyPadding: "val (ApplyPadding p x) i =
   (if val p (bidx (shape p) i) > 0 then 0 else val x (bidx (shape x) i))"
  by (simp add: ApplyPadding_def)

lemma shape_WindowedCumSum:
  assumes "shape x = b # t # s" "shape padding = b # t # replicate (length s) 1"
  shows "shape (WindowedCumSum x padding w 1) = shape x"
  using assms by (simp add: WindowedCumSum_def Let_def bshape_Cons bshape_ones_left bshape_ones_right)

lemma val_WindowedCumSum:
  assumes sx: "shape x = b # t # s"
    and sp: "shape padding = b # t # replicate (length s) 1"
    and w: "0 \<le> w" "w \<le> int t"
    and i: "valid_index (shape x) (bi # ti # r)"
  shows "val (WindowedCumSum x padding w 1) (bi # ti # r) =
    val x (bi # ti # r)
      - (if w \<le> int ti \<and> \<not> val padding (bi # ti # replicate (length s) 0) > 0
         then val x (bi # nat (int ti - w) # r) else 0)"
proof -
  from i sx have bt: "bi < b" "ti < t" and r: "valid_index s r" by auto
  have lr: "length r = length s" using r by (rule valid_index_length)
  have b1: "bidx (b # t # s) (bi # ti # r) = bi # ti # r"
    using bidx_valid [of "b # t # s" "bi # ti # r"] bt r by simp
  have b2: "bidx (b # t # replicate (length s) (Suc 0)) (bi # ti # r) = bi # ti # replicate (length s) 0"
    using bt lr by (auto simp: bidx_Cons bidx_ones)
  have b3: "bidx (b # t # replicate (length s) (Suc 0)) (bi # ti # replicate (length s) 0)
       = bi # ti # replicate (length s) 0"
    using bt by (auto simp: bidx_Cons bidx_ones)
  have md: "w \<le> int ti \<Longrightarrow> (int ti - w) mod int t = int ti - w"
    using w bt by (simp add: mod_pos_pos_trivial)
  show ?thesis
    using bt w
    by (simp add: WindowedCumSum_def Let_def val_bop sx sp bshape_Cons bshape_ones_left
        bshape_ones_right b1 b2 b3 val_ApplyPadding roll_def reshape_def
        PaddingsFromLengths_def repeat_def flat_index_bt_ones md)
qed

section \<open>The windowed cumulative sum\<close>

text \<open>
  C3. For a cumulative sum \<open>x\<close> of shape \<open>[b, t, ...]\<close> along the time axis 1, a padding
  of shape \<open>[b, t, 1, ...]\<close> and a window \<open>w\<close> with \<open>0 \<le> w \<le> t\<close> (clamped to the
  sequence length by the caller), \<^verbatim>\<open>_WindowedCumSum\<close> keeps the shape and returns,
  at every position \<open>ti\<close>: \<open>x[ti] - x[ti - w]\<close> when \<open>ti \<ge> w\<close> and the position is not
  padded; \<open>x[ti]\<close> when \<open>ti < w\<close> (the shifted term is out of range and counts as
  zero); and \<open>x[ti]\<close> at a padded position, where the shifted term is zeroed before
  the subtraction.
\<close>

theorem WindowedCumSum_spec:
  assumes "shape x = b # t # s"
    and "shape padding = b # t # replicate (length s) 1"
    and "0 \<le> w" and "w \<le> int t"
    and "valid_index (shape x) (bi # ti # r)"
  shows "shape (WindowedCumSum x padding w 1) = shape x
    \<and> (w \<le> int ti \<and> \<not> val padding (bi # ti # replicate (length s) 0) > 0 \<longrightarrow>
         val (WindowedCumSum x padding w 1) (bi # ti # r)
           = val x (bi # ti # r) - val x (bi # nat (int ti - w) # r))
    \<and> (int ti < w \<longrightarrow>
         val (WindowedCumSum x padding w 1) (bi # ti # r) = val x (bi # ti # r))
    \<and> (val padding (bi # ti # replicate (length s) 0) > 0 \<longrightarrow>
         val (WindowedCumSum x padding w 1) (bi # ti # r) = val x (bi # ti # r))"
  using shape_WindowedCumSum [OF assms(1,2)] val_WindowedCumSum [OF assms]
  by auto

theorem WindowedCumSum_spec_witness:
  "val (WindowedCumSum (tensor_of_list [1, 4, 1, 1] [1, 3, 6, 10])
          (tensor_of_list [1, 4, 1, 1] [0, 0, 0, 1]) 2 1) [0, 2, 0, 0] = 5
   \<and> val (WindowedCumSum (tensor_of_list [1, 4, 1, 1] [1, 3, 6, 10])
          (tensor_of_list [1, 4, 1, 1] [0, 0, 0, 1]) 2 1) [0, 1, 0, 0] = 3
   \<and> val (WindowedCumSum (tensor_of_list [1, 4, 1, 1] [1, 3, 6, 10])
          (tensor_of_list [1, 4, 1, 1] [0, 0, 0, 1]) 2 1) [0, 3, 0, 0] = 10"
proof -
  let ?x = "tensor_of_list [1, 4, 1, 1] [1, 3, 6, 10]"
  let ?p = "tensor_of_list [1, 4, 1, 1] [0, 0, 0, 1]"
  have sx: "shape ?x = 1 # 4 # [1, 1]" by (simp add: tensor_of_list_def)
  have sp: "shape ?p = 1 # 4 # replicate (length [1, 1 :: nat]) 1"
    by (simp add: tensor_of_list_def)
  have w: "(0::int) \<le> 2" "(2::int) \<le> int 4" by simp_all
  have v: "valid_index (shape ?x) (0 # 2 # [0, 0])" "valid_index (shape ?x) (0 # 1 # [0, 0])"
    "valid_index (shape ?x) (0 # 3 # [0, 0])"
    by (simp_all add: tensor_of_list_def)
  show ?thesis
    using WindowedCumSum_spec [OF sx sp w v(1)] WindowedCumSum_spec [OF sx sp w v(2)]
      WindowedCumSum_spec [OF sx sp w v(3)]
    by (simp add: tensor_of_list_def flat_index_def)
qed

section \<open>Padded elements do not influence the moments\<close>


lemma bidx_length: "length (bidx s i) = min (length s) (length i)"
  by (auto simp: bidx_def)

lemma map2_bidx_absorb:
  "list_all2 (\<lambda>p x. p = 1 \<or> p = x) sp sx \<Longrightarrow>
   map (\<lambda>(d, k). if d = 1 then 0 else k) (zip sp (map (\<lambda>(d, k). if d = (1::nat) then 0 else k) (zip sx l)))
   = map (\<lambda>(d, k). if d = 1 then 0 else (k::nat)) (zip sp l)"
proof (induction sp sx arbitrary: l rule: list_all2_induct)
  case Nil then show ?case by simp
next
  case (Cons p ps x xs)
  then show ?case by (cases l) auto
qed

lemma bidx_absorb:
  assumes "list_all2 (\<lambda>p x. p = 1 \<or> p = x) sp sx"
  shows "bidx sp (bidx sx i) = bidx sp i"
proof -
  have len: "length sp = length sx" using assms by (rule list_all2_lengthD)
  have "length (bidx sx i) - length sp = 0" by (simp add: bidx_length len)
  then have "bidx sp (bidx sx i)
     = map (\<lambda>(d, k). if d = 1 then 0 else k) (zip sp (bidx sx i))"
    by (simp add: bidx_def [of sp])
  also have "\<dots> = map (\<lambda>(d, k). if d = 1 then 0 else k) (zip sp (drop (length i - length sx) i))"
    unfolding bidx_def [of sx] using map2_bidx_absorb [OF assms] by simp
  finally show ?thesis by (simp add: bidx_def len)
qed










section \<open>The batch estimator on inputs of shape \<open>[B, T, N, G]\<close>\<close>

lemma sum_upto_eq: "sum_upto n f = (\<Sum>k<n. f k)"
  by (simp add: sum_upto_def interv_sum_list_conv_sum_set_nat atLeast0LessThan)

lemma shape_reduce_sum3:
  "shape y = [B, T, N, G] \<Longrightarrow> shape (reduce_sum y [3] True) = [B, T, N, 1]"
  by (simp add: reduce_sum_def reduce_axis_def)

lemma val_reduce_sum3:
  "shape y = [B, T, N, G] \<Longrightarrow>
   val (reduce_sum y [3] True) [b, t, n, g] = (\<Sum>k<G. val y [b, t, n, k])"
  by (simp add: reduce_sum_def reduce_axis_def sum_upto_eq)

lemma val_cumsum1:
  "val (cumsum y (Suc 0)) [b, t, n, g] = (\<Sum>k<Suc t. val y [b, k, n, g])"
  by (simp add: cumsum_def sum_upto_eq)

lemma shape_AP4:
  "shape p = [B, T, 1, 1] \<Longrightarrow> shape y = [B, T, N, G] \<Longrightarrow> shape (ApplyPadding p y) = [B, T, N, G]"
  by (simp add: bshape_def align_def)

lemma val_AP4:
  "shape p = [B, T, 1, 1] \<Longrightarrow> shape y = [B, T, N, G] \<Longrightarrow> b < B \<Longrightarrow> t < T \<Longrightarrow> n < N \<Longrightarrow> g < G \<Longrightarrow>
   val (ApplyPadding p y) [b, t, n, g] = (if val p [b, t, 0, 0] > 0 then 0 else val y [b, t, n, g])"
  by (auto simp: val_ApplyPadding bidx_def)

lemma shape_AP_scalar:
  "shape (ApplyPadding p (scalar c dt)) = shape p"
  by (simp add: scalar_def bshape_def align_def zip_replicate2 map_idI split: if_splits)

lemma set_indices: "set (indices s) = {i. valid_index s i}"
proof (induction s)
  case Nil show ?case by auto
next
  case (Cons d s)
  show ?case
  proof (rule set_eqI)
    fix j
    show "j \<in> set (indices (d # s)) \<longleftrightarrow> j \<in> {i. valid_index (d # s) i}"
      using Cons by (cases j) (auto simp: valid_index_Cons_iff)
  qed
qed

lemma list_all_indices: "list_all Q (indices s) = (\<forall>i. valid_index s i \<longrightarrow> Q i)"
  by (auto simp: list_all_iff set_indices)

lemma valid_index4: "valid_index [B, T, N, G] i = (\<exists>b t n g. i = [b, t, n, g] \<and> b < B \<and> t < T \<and> n < N \<and> g < G)"
  by (auto simp: valid_index_Cons_iff)

lemma shape_cumulate:
  assumes "shape y = B # T # s" "shape P = B # T # replicate (length s) 1"
  shows "shape (cumulate y X P (Some 1) ws) = shape y"
  using assms shape_WindowedCumSum [of "cumsum y 1" B T s P]
  by (simp add: cumulate_def Let_def)

lemma val_cumulate4:
  assumes sy: "shape y = [B, T, N, 1]" and sp: "shape P = [B, T, 1, 1]"
    and sx: "shape X ! Suc 0 = T"
    and ws: "ws = None \<or> (\<exists>W. ws = Some (int W))"
    and i: "b < B" "t < T" "n < N"
  shows "val (cumulate y X P (Some (Suc 0)) ws) [b, t, n, 0]
      = window (clamped_window ws T) P b (\<lambda>k. \<Sum>j<k. val y [b, j, n, 0]) t"
proof (cases "truthy ws")
  case False
  then show ?thesis 
    by (simp add: cumulate_def clamped_window_def window_def val_cumsum1 del: sum.lessThan_Suc)
next
  case True
  then obtain W where W: "ws = Some (int W)" using ws by (auto simp: truthy_def)
  define w where "w = min W T"
  have wi: "min (int W) (int T) = int w" by (simp add: w_def)
  have s1: "shape (cumsum y (Suc 0)) = B # T # [N, 1]" using sy by simp
  have s2: "shape P = B # T # replicate (length [N, 1::nat]) 1" using sp by simp
  have v: "valid_index (shape (cumsum y (Suc 0))) (b # t # [n, 0])" using i sy by simp
  have w: "0 \<le> int w" "int w \<le> int T" by (simp_all add: w_def)
  have eq: "val (WindowedCumSum (cumsum y (Suc 0)) P (int w) (Suc 0)) [b, t, n, 0]
    = val (cumsum y (Suc 0)) [b, t, n, 0]
      - (if w \<le> t \<and> \<not> padded P b t then val (cumsum y (Suc 0)) [b, t - w, n, 0] else 0)"
    using val_WindowedCumSum [OF s1 s2 w v]
    by (simp add: padded_def nat_diff_distrib' del: sum.lessThan_Suc)
  have su: "w \<le> t \<Longrightarrow> Suc t - w = Suc (t - w)" by simp
  show ?thesis
    using True
    by (simp add: cumulate_def clamped_window_def window_def W sx wi eq val_cumsum1 su
        del: sum.lessThan_Suc of_nat_min)
qed

lemma shape_scalar [simp]: "shape (scalar c dt) = []"
  by (simp add: scalar_def)

lemma bshape_Nil_right [simp]: "bshape s [] = s"
  using shape_AP_scalar [of "\<lparr>shape = s, val = (\<lambda>i. 0), dtype = float32\<rparr>" 0 float32]
  by simp

lemma val_mask4:
  "shape P = [B, T, 1, 1] \<Longrightarrow> b < B \<Longrightarrow> t < T \<Longrightarrow>
   val (ApplyPadding P (scalar c dt)) [b, t, 0, 0] = (if padded P b t then 0 else c)"
  by (auto simp: val_ApplyPadding bidx_def padded_def scalar_def)

lemma val_bop4_N1:
  "shape x = [B, T, N, 1] \<Longrightarrow> shape y = [B, T, 1, 1] \<Longrightarrow> b < B \<Longrightarrow> t < T \<Longrightarrow> n < N \<Longrightarrow>
   val (bop f x y) [b, t, n, 0] = f (val x [b, t, n, 0]) (val y [b, t, 0, 0])"
  by (auto simp: val_bop bidx_def)

lemma shape_bop4_N1:
  "shape x = [B, T, N, 1] \<Longrightarrow> shape y = [B, T, 1, 1] \<Longrightarrow> shape (bop f x y) = [B, T, N, 1]"
  by (auto simp: bshape_def align_def)

lemma val_sqdiff4:
  "shape x = [B, T, N, G] \<Longrightarrow> shape m = [B, T, N, 1] \<Longrightarrow> b < B \<Longrightarrow> t < T \<Longrightarrow> n < N \<Longrightarrow> g < G \<Longrightarrow>
   val (squared_difference x m) [b, t, n, g]
     = (val x [b, t, n, g] - val m [b, t, n, 0]) * (val x [b, t, n, g] - val m [b, t, n, 0])"
  by (auto simp: squared_difference_def val_bop bidx_def)

lemma shape_sqdiff4:
  "shape x = [B, T, N, G] \<Longrightarrow> shape m = [B, T, N, 1] \<Longrightarrow> shape (squared_difference x m) = [B, T, N, G]"
  by (auto simp: squared_difference_def bshape_def align_def)

lemma val_masked_reduce:
  assumes "shape X = [B, T, N, G]" "shape P = [B, T, 1, 1]" "b < B" "t < T" "n < N"
  shows "val (reduce_sum (ApplyPadding P X) [3] True) [b, t, n, 0] = masked_sum X P b n t"
  using assms
  by (simp add: val_reduce_sum3 [OF shape_AP4] val_AP4 masked_sum_def padded_def sum_upto_eq)

lemma val_masked_sq_reduce:
  assumes "shape X = [B, T, N, G]" "shape P = [B, T, 1, 1]" "shape m = [B, T, N, 1]"
    "b < B" "t < T" "n < N"
  shows "val (reduce_sum (ApplyPadding P (squared_difference X m)) [3] True) [b, t, n, 0]
       = masked_sq X P (\<lambda>t. val m [b, t, n, 0]) b n t"
  using assms
  by (simp add: val_reduce_sum3 [OF shape_AP4] shape_sqdiff4 val_AP4 val_sqdiff4
      masked_sq_def padded_def sum_upto_eq)

lemma val_count_reduce:
  assumes "shape P = [B, T, 1, 1]" "b < B" "t < T"
  shows "val (reduce_sum (ApplyPadding P (scalar c dt)) [3] True) [b, t, 0, 0]
       = (if padded P b t then 0 else c)"
proof -
  have s: "shape (ApplyPadding P (scalar c dt)) = [B, T, 1, 1]"
    using assms by (simp add: shape_AP_scalar)
  show ?thesis using assms by (simp add: val_reduce_sum3 [OF s] val_mask4)
qed

lemma shape_count_reduce:
  assumes "shape P = [B, T, 1, 1]"
  shows "shape (reduce_sum (ApplyPadding P (scalar c dt)) [3] True) = [B, T, 1, 1]"
proof -
  have s: "shape (ApplyPadding P (scalar c dt)) = [B, T, 1, 1]"
    using assms by (simp add: shape_AP_scalar)
  show ?thesis using shape_reduce_sum3 [OF s] by simp
qed

lemma window_cong:
  "(\<And>k. k \<le> Suc t \<Longrightarrow> f k = g k) \<Longrightarrow> window w P b f t = window w P b g t"
  by (auto simp: window_def split: option.splits)

lemma stats4:
  assumes sx: "shape X = [B, T, N, G]" and sp: "shape P = [B, T, 1, 1]"
    and ws: "ws = None \<or> (\<exists>W. ws = Some (int W))"
    and crs: "\<not> (use_tpu ev \<and> en)"
    and st: "ComputeMoments_stats ev X P [3] (Some (Suc 0)) en True ws = (M, SV, C)"
  shows "shape M = [B, T, N, 1]" "shape SV = [B, T, N, 1]" "shape C = [B, T, 1, 1]"
    "\<And>b t n. b < B \<Longrightarrow> t < T \<Longrightarrow> n < N \<Longrightarrow>
       val M [b, t, n, 0] = batch_mean (clamped_window ws T) X P b n t"
    "\<And>b t. b < B \<Longrightarrow> t < T \<Longrightarrow>
       val C [b, t, 0, 0] = batch_count (clamped_window ws T) X P b t"
    "\<And>b t n. b < B \<Longrightarrow> t < T \<Longrightarrow> n < N \<Longrightarrow>
       val SV [b, t, n, 0] = window (clamped_window ws T) P b
          (\<lambda>k. sum_upto k (masked_sq X P (batch_mean (clamped_window ws T) X P b n) b n)) t"
proof -
  define sum_v0 where "sum_v0 = reduce_sum (ApplyPadding P X) [3] True"
  define count_v0 where "count_v0 = reduce_sum (ApplyPadding P (scalar 1 (dtype X))) [3] True"
  define sum_v where "sum_v = cumulate sum_v0 X P (Some (Suc 0)) ws"
  define count_v1 where "count_v1 = cumulate count_v0 X P (Some (Suc 0)) ws"
  define count_v where "count_v = tmap (\<lambda>c. max c 1) (tmap (\<lambda>c. c * real G) count_v1)"
  define mean where "mean = bop (/) sum_v count_v"
  define sum_vv0 where "sum_vv0 = reduce_sum (ApplyPadding P (squared_difference X mean)) [3] True"
  define sum_vv where "sum_vv = cumulate sum_vv0 X P (Some (Suc 0)) ws"
  have s_sum_v0: "shape sum_v0 = [B, T, N, 1]"
    unfolding sum_v0_def using shape_reduce_sum3 [OF shape_AP4 [OF sp sx]] .
  have s_count_v0: "shape count_v0 = [B, T, 1, 1]"
    unfolding count_v0_def using shape_count_reduce [OF sp] .
  have sp': "shape P = B # T # replicate (length [N, 1::nat]) 1" using sp by simp
  have s_sum_v: "shape sum_v = [B, T, N, 1]"
    unfolding sum_v_def using shape_cumulate [of sum_v0 B T "[N, 1]" P X ws] s_sum_v0 sp by simp
  have s_count_v1: "shape count_v1 = [B, T, 1, 1]"
    unfolding count_v1_def using shape_cumulate [of count_v0 B T "[1, 1]" P X ws] s_count_v0 sp by simp
  have s_count_v: "shape count_v = [B, T, 1, 1]"
    unfolding count_v_def using s_count_v1 by simp
  have s_mean: "shape mean = [B, T, N, 1]"
    unfolding mean_def using shape_bop4_N1 [OF s_sum_v s_count_v] .
  have s_sum_vv0: "shape sum_vv0 = [B, T, N, 1]"
    unfolding sum_vv0_def
    using shape_reduce_sum3 [OF shape_AP4 [OF sp shape_sqdiff4 [OF sx s_mean]]] .
  have s_sum_vv: "shape sum_vv = [B, T, N, 1]"
    unfolding sum_vv_def using shape_cumulate [of sum_vv0 B T "[N, 1]" P X ws] s_sum_vv0 sp by simp
  have mm: "real (prod_list (map ((!) (shape X)) [3]))
      / real (prod_list (map ((!) (shape (ApplyPadding P (scalar 1 (dtype X))))) [3])) = real G"
    by (simp add: sx shape_AP_scalar sp)
  have rs: "\<And>v. replica_sum ev en v = v" using crs by (auto simp: replica_sum_def)
  have "ComputeMoments_stats ev X P [3] (Some (Suc 0)) en True ws = (mean, sum_vv, count_v)"
    unfolding ComputeMoments_stats_def Let_def mm rs
    by (simp add: mean_def sum_vv_def sum_vv0_def count_v_def count_v1_def count_v0_def
        sum_v_def sum_v0_def)
  then have eq: "(M, SV, C) = (mean, sum_vv, count_v)" using st by simp
  have sxT: "shape X ! Suc 0 = T" using sx by simp
  show "shape M = [B, T, N, 1]" "shape SV = [B, T, N, 1]" "shape C = [B, T, 1, 1]"
    using eq s_mean s_sum_vv s_count_v by simp_all
  have v_sum_v: "val sum_v [b, t, n, 0]
     = window (clamped_window ws T) P b (\<lambda>k. sum_upto k (masked_sum X P b n)) t"
    if "b < B" "t < T" "n < N" for b t n
  proof -
    have "\<And>j. j < T \<Longrightarrow> val sum_v0 [b, j, n, 0] = masked_sum X P b n j"
      unfolding sum_v0_def using val_masked_reduce [OF sx sp] that by simp
    then have "\<And>k. k \<le> Suc t \<Longrightarrow>
        (\<Sum>j<k. val sum_v0 [b, j, n, 0]) = sum_upto k (masked_sum X P b n)"
      using that by (simp add: sum_upto_eq)
    then have "window (clamped_window ws T) P b (\<lambda>k. \<Sum>j<k. val sum_v0 [b, j, n, 0]) t
       = window (clamped_window ws T) P b (\<lambda>k. sum_upto k (masked_sum X P b n)) t"
      by (rule window_cong)
    then show ?thesis
      unfolding sum_v_def using val_cumulate4 [OF s_sum_v0 sp sxT ws that] by simp
  qed
  have v_count: "val count_v [b, t, 0, 0] = batch_count (clamped_window ws T) X P b t"
    if "b < B" "t < T" for b t
  proof -
    have "\<And>j. j < T \<Longrightarrow> val count_v0 [b, j, 0, 0] = (if padded P b j then 0 else 1)"
      unfolding count_v0_def using val_count_reduce [OF sp] that by simp
    then have "\<And>k. k \<le> Suc t \<Longrightarrow>
        (\<Sum>j<k. val count_v0 [b, j, 0, 0]) = valid_count P b k"
      using that by (simp add: sum_upto_eq valid_count_def)
    then have "window (clamped_window ws T) P b (\<lambda>k. \<Sum>j<k. val count_v0 [b, j, 0, 0]) t
       = window (clamped_window ws T) P b (valid_count P b) t"
      by (rule window_cong)
    then show ?thesis
      unfolding count_v_def count_v1_def batch_count_def
      using val_cumulate4 [OF s_count_v0 sp sxT ws that(1,2), of 0] by (simp add: sx)
  qed
  have v_mean: "val mean [b, t, n, 0] = batch_mean (clamped_window ws T) X P b n t"
    if "b < B" "t < T" "n < N" for b t n
    unfolding mean_def batch_mean_def
    using val_bop4_N1 [OF s_sum_v s_count_v that] v_sum_v [OF that] v_count [OF that(1,2)]
    by simp
  have v_sum_vv: "val sum_vv [b, t, n, 0] = window (clamped_window ws T) P b
          (\<lambda>k. sum_upto k (masked_sq X P (batch_mean (clamped_window ws T) X P b n) b n)) t"
    if "b < B" "t < T" "n < N" for b t n
  proof -
    have "\<And>j. j < T \<Longrightarrow> val sum_vv0 [b, j, n, 0]
        = masked_sq X P (batch_mean (clamped_window ws T) X P b n) b n j"
    proof -
      fix j assume j: "j < T"
      have "val sum_vv0 [b, j, n, 0] = masked_sq X P (\<lambda>t. val mean [b, t, n, 0]) b n j"
        unfolding sum_vv0_def using val_masked_sq_reduce [OF sx sp s_mean that(1) j that(3)] .
      also have "\<dots> = masked_sq X P (batch_mean (clamped_window ws T) X P b n) b n j"
        using v_mean [OF that(1) j that(3)] by (simp add: masked_sq_def)
      finally show "val sum_vv0 [b, j, n, 0]
        = masked_sq X P (batch_mean (clamped_window ws T) X P b n) b n j" .
    qed
    then have "\<And>k. k \<le> Suc t \<Longrightarrow> (\<Sum>j<k. val sum_vv0 [b, j, n, 0])
        = sum_upto k (masked_sq X P (batch_mean (clamped_window ws T) X P b n) b n)"
      using that by (simp add: sum_upto_eq)
    then have "window (clamped_window ws T) P b (\<lambda>k. \<Sum>j<k. val sum_vv0 [b, j, n, 0]) t
       = window (clamped_window ws T) P b
          (\<lambda>k. sum_upto k (masked_sq X P (batch_mean (clamped_window ws T) X P b n) b n)) t"
      by (rule window_cong)
    then show ?thesis
      unfolding sum_vv_def using val_cumulate4 [OF s_sum_vv0 sp sxT ws that] by simp
  qed
  show "val C [b, t, 0, 0] = batch_count (clamped_window ws T) X P b t"
    if "b < B" "t < T" for b t using v_count [OF that] eq by simp
  show "val M [b, t, n, 0] = batch_mean (clamped_window ws T) X P b n t"
    if "b < B" "t < T" "n < N" for b t n using v_mean [OF that] eq by simp
  show "val SV [b, t, n, 0] = window (clamped_window ws T) P b
          (\<lambda>k. sum_upto k (masked_sq X P (batch_mean (clamped_window ws T) X P b n) b n)) t"
    if "b < B" "t < T" "n < N" for b t n using v_sum_vv [OF that] eq by simp
qed

lemma sum_upto_nonneg: "(\<And>j. 0 \<le> g j) \<Longrightarrow> 0 \<le> sum_upto k g"
  by (simp add: sum_upto_eq sum_nonneg)

lemma sum_upto_mono: "(\<And>j. 0 \<le> g j) \<Longrightarrow> k \<le> k' \<Longrightarrow> sum_upto k g \<le> sum_upto k' g"
  unfolding sum_upto_eq by (rule sum_mono2) auto

lemma window_nonneg:
  assumes "\<And>j. 0 \<le> g j"
  shows "0 \<le> window w P b (\<lambda>k. sum_upto k g) t"
proof (cases w)
  case None
  then show ?thesis using sum_upto_nonneg [OF assms] by (simp add: window_def)
next
  case (Some a)
  have "sum_upto (Suc t - a) g \<le> sum_upto (Suc t) g"
    by (rule sum_upto_mono [OF assms]) simp
  then show ?thesis using Some sum_upto_nonneg [OF assms, of "Suc t"]
    by (simp add: window_def)
qed

lemma masked_sq_nonneg: "0 \<le> masked_sq X P m b n t"
  by (simp add: masked_sq_def sum_upto_nonneg)

lemma ComputeMoments4:
  assumes sx: "shape X = [B, T, N, G]" and sp: "shape P = [B, T, 1, 1]"
    and ws: "ws = None \<or> (\<exists>W. ws = Some (int W))"
    and crs: "\<not> (use_tpu ev \<and> en)"
  shows "\<exists>M V. ComputeMoments ev X P [3] (Some 1) en True ws = Inr (M, V)
    \<and> shape M = [B, T, N, 1] \<and> shape V = [B, T, N, 1]
    \<and> (\<forall>b t n. b < B \<and> t < T \<and> n < N \<longrightarrow>
          val M [b, t, n, 0] = batch_mean (clamped_window ws T) X P b n t
        \<and> val V [b, t, n, 0] = batch_variance (clamped_window ws T) X P b n t)"
proof -
  obtain M SV C where st: "ComputeMoments_stats ev X P [3] (Some (Suc 0)) en True ws = (M, SV, C)"
    by (metis prod_cases3)
  note s4 = stats4 [OF sx sp ws crs st]
  have r: "rank X = rank P" by (simp add: rank_def sx sp)
  have red: "shape (reduce_sum (ApplyPadding P X) [3] True) = [B, T, N, 1]"
    using shape_reduce_sum3 [OF shape_AP4 [OF sp sx]] .
  have ok: "ComputeMoments_shapes_ok X P [3] (Some (Suc 0)) True ws"
    unfolding ComputeMoments_shapes_ok_def Let_def red
    by (auto simp: sx sp broadcastable_def bshape_def align_def rank_def)
  have mb: "broadcastable (shape X) (shape M) \<and> bshape (shape X) (shape M) = shape X"
    by (auto simp: sx s4(1) broadcastable_def bshape_def align_def)
  have nn: "list_all (\<lambda>i. 0 \<le> val SV i) (indices (shape SV))"
    unfolding list_all_indices s4(2)
    using s4(6) window_nonneg [OF masked_sq_nonneg]
    by (auto simp: valid_index4)
  have cm: "ComputeMoments ev X P [3] (Some 1) en True ws = Inr (M, bop (/) SV C)"
    using r ok mb nn st by (simp add: ComputeMoments_def bindE_def check_def)
  have sv: "shape (bop (/) SV C) = [B, T, N, 1]"
    using shape_bop4_N1 [OF s4(2) s4(3)] .
  have vv: "val (bop (/) SV C) [b, t, n, 0] = batch_variance (clamped_window ws T) X P b n t"
    if "b < B" "t < T" "n < N" for b t n
    using val_bop4_N1 [OF s4(2) s4(3) that] s4(5) [OF that(1,2)] s4(6) [OF that]
    by (simp add: batch_variance_def)
  show ?thesis using cm s4(1) sv s4(4) vv by auto
qed

section \<open>One step of the streaming estimator\<close>

lemma sum_upto_add: "sum_upto (a + k) f = sum_upto a f + sum_upto k (\<lambda>j. f (a + j))"
proof (induction k)
  case 0 show ?case by (simp add: sum_upto_def)
next
  case (Suc k) then show ?case by (simp add: sum_upto_def)
qed

lemma sum_upto_Suc_add:
  "sum_upto (Suc (a + k)) f = sum_upto a f + sum_upto (Suc k) (\<lambda>j. f (a + j))"
  using sum_upto_add [of a "Suc k" f] by simp

lemma shape_bop4_time:
  "shape x = [B, t, N, 1] \<Longrightarrow> shape y = [B, 1, N, 1] \<Longrightarrow> shape (bop f x y) = [B, t, N, 1]"
  by (auto simp: bshape_def align_def)

lemma val_bop4_time:
  "shape x = [B, t, N, 1] \<Longrightarrow> shape y = [B, 1, N, 1] \<Longrightarrow> b < B \<Longrightarrow> i < t \<Longrightarrow> n < N \<Longrightarrow>
   val (bop f x y) [b, i, n, 0] = f (val x [b, i, n, 0]) (val y [b, 0, n, 0])"
  by (auto simp: val_bop bidx_def)

lemma shape_last_frame:
  "shape x = [B, t, N, K] \<Longrightarrow> 0 < t \<Longrightarrow> shape (last_frame x) = [B, 1, N, K]"
  by (simp add: last_frame_def slice_axis_def)

lemma val_last_frame:
  "shape x = [B, t, N, K] \<Longrightarrow> val (last_frame x) [b, 0, n, k] = val x [b, t - 1, n, k]"
  by (simp add: last_frame_def slice_axis_def)

lemma masked_sum_chunk:
  assumes "chunk_of Xc X off" "chunk_of Pc P off" "shape Xc ! 3 = shape X ! 3"
  shows "masked_sum Xc Pc b n i = masked_sum X P b n (off + i)"
  using assms by (simp add: masked_sum_def padded_def chunk_of_def)

lemma masked_sq_chunk:
  assumes "chunk_of Xc X off" "chunk_of Pc P off" "shape Xc ! 3 = shape X ! 3"
  shows "masked_sq Xc Pc (\<lambda>i. m (off + i)) b n i = masked_sq X P m b n (off + i)"
  using assms by (simp add: masked_sq_def padded_def chunk_of_def)

lemma StreamMoments4:
  assumes sx: "shape X = [B, T, N, G]" 
    and sxc: "shape Xc = [B, t, N, G]" and spc: "shape Pc = [B, t, 1, 1]"
    and cx: "chunk_of Xc X off" and cp: "chunk_of Pc P off"
    and t: "0 < t"
    and inv: "stream_inv X P off st"
  shows "\<exists>m v st'. StreamMoments Xc (Some Pc) st = Inr (m, v, st')
    \<and> shape m = [B, t, N, 1] \<and> shape v = [B, t, N, 1]
    \<and> (\<forall>b i n. b < B \<and> i < t \<and> n < N \<longrightarrow>
          val m [b, i, n, 0] = batch_mean None X P b n (off + i)
        \<and> val v [b, i, n, 0] = batch_variance None X P b n (off + i))
    \<and> stream_inv X P (off + t) st'"
proof -
  obtain s c v where st: "st = CumulativeState s c v"
    using inv by (cases st) (auto simp: stream_inv_def)
  have ss: "shape s = [B, 1, N, 1]" and sc: "shape c = [B, 1, 1, 1]" and sv: "shape v = [B, 1, N, 1]"
    using inv by (auto simp: stream_inv_def st sx)
  have vs: "\<And>b n. b < B \<Longrightarrow> n < N \<Longrightarrow> val s [b, 0, n, 0] = sum_upto off (masked_sum X P b n)"
    and vv: "\<And>b n. b < B \<Longrightarrow> n < N \<Longrightarrow>
       val v [b, 0, n, 0] = sum_upto off (masked_sq X P (batch_mean None X P b n) b n)"
    using inv by (auto simp: stream_inv_def st sx)
  define sum_v0 where "sum_v0 = cumsum (reduce_sum (ApplyPadding Pc Xc) [3] True) (Suc 0)"
  define sum_v where "sum_v = bop (+) sum_v0 s"
  define count_v0 where
    "count_v0 = cumsum (reduce_sum (ApplyPadding Pc (scalar (real G) (dtype Xc))) [3] True) (Suc 0)"
  define count_v where "count_v = bop (+) count_v0 c"
  define mean where "mean = bop (/) sum_v (tmap (\<lambda>c. max c 1) count_v)"
  define sum_vv0 where
    "sum_vv0 = cumsum (reduce_sum (ApplyPadding Pc (squared_difference Xc mean)) [3] True) (Suc 0)"
  define sum_vv where "sum_vv = bop (+) sum_vv0 v"
  define variance where "variance = bop (/) sum_vv (tmap (\<lambda>c. max c 1) count_v)"
  have run: "StreamMoments Xc (Some Pc) st
    = Inr (mean, variance, CumulativeState (last_frame sum_v) (last_frame count_v) (last_frame sum_vv))"
    unfolding StreamMoments_def
    by (simp add: rank_def sxc spc st ss sc sv bindE_def check_def HasShape_def Let_def
        state_cached_sum_def state_cached_count_def state_cached_var_def
        mean_def variance_def sum_vv_def sum_vv0_def count_v_def count_v0_def sum_v_def sum_v0_def)
  have G: "shape Xc ! 3 = shape X ! 3" "shape X ! 3 = G" by (simp_all add: sx sxc)
  have s_sum_v0: "shape sum_v0 = [B, t, N, 1]"
    unfolding sum_v0_def using shape_reduce_sum3 [OF shape_AP4 [OF spc sxc]] by simp
  have s_sum_v: "shape sum_v = [B, t, N, 1]"
    unfolding sum_v_def using shape_bop4_time [OF s_sum_v0 ss] .
  have s_count_v0: "shape count_v0 = [B, t, 1, 1]"
    unfolding count_v0_def using shape_count_reduce [OF spc] by simp
  have s_count_v: "shape count_v = [B, t, 1, 1]"
    unfolding count_v_def using shape_bop4_time [OF s_count_v0 sc] .
  have s_count_m: "shape (tmap (\<lambda>c. max c 1) count_v) = [B, t, 1, 1]"
    using s_count_v by simp
  have s_mean: "shape mean = [B, t, N, 1]"
    unfolding mean_def using shape_bop4_N1 [OF s_sum_v s_count_m] .
  have s_sum_vv0: "shape sum_vv0 = [B, t, N, 1]"
    unfolding sum_vv0_def
    using shape_reduce_sum3 [OF shape_AP4 [OF spc shape_sqdiff4 [OF sxc s_mean]]] by simp
  have s_sum_vv: "shape sum_vv = [B, t, N, 1]"
    unfolding sum_vv_def using shape_bop4_time [OF s_sum_vv0 sv] .
  have s_var: "shape variance = [B, t, N, 1]"
    unfolding variance_def using shape_bop4_N1 [OF s_sum_vv s_count_m] .
  have v_sum_v: "val sum_v [b, i, n, 0] = sum_upto (off + Suc i) (masked_sum X P b n)"
    if "b < B" "i < t" "n < N" for b i n
  proof -
    have "val sum_v0 [b, i, n, 0] = (\<Sum>j<Suc i. masked_sum Xc Pc b n j)"
      unfolding sum_v0_def val_cumsum1
      using val_masked_reduce [OF sxc spc that(1) _ that(3)] that(2) by simp
    also have "\<dots> = sum_upto (Suc i) (\<lambda>j. masked_sum X P b n (off + j))"
      unfolding sum_upto_eq using masked_sum_chunk [OF cx cp G(1)] by simp
    finally show ?thesis
      unfolding sum_v_def
      using val_bop4_time [OF s_sum_v0 ss that] vs [OF that(1,3)]
      by (simp add: sum_upto_Suc_add [of off i])
  qed
  have v_count_v: "val count_v [b, i, 0, 0] = valid_count P b (off + Suc i) * real G"
    if "b < B" "i < t" for b i
  proof -
    have "val count_v0 [b, i, 0, 0] = (\<Sum>j<Suc i. if padded Pc b j then 0 else real G)"
      unfolding count_v0_def val_cumsum1
      using val_count_reduce [OF spc that(1)] that(2) by simp
    also have "\<dots> = (\<Sum>j<Suc i. (if padded P b (off + j) then 0 else 1) * real G)"
      using cp by (intro sum.cong) (auto simp: padded_def chunk_of_def)
    also have "\<dots> = sum_upto (Suc i) (\<lambda>j. if padded P b (off + j) then 0 else 1) * real G"
      unfolding sum_upto_eq by (simp add: sum_distrib_right del: sum.lessThan_Suc)
    finally have c0: "val count_v0 [b, i, 0, 0]
      = sum_upto (Suc i) (\<lambda>j. if padded P b (off + j) then 0 else 1) * real G" .
    have "val c [b, 0, 0, 0] = valid_count P b off * real G"
      using inv that by (auto simp: stream_inv_def st sx)
    moreover have "valid_count P b (off + Suc i)
        = valid_count P b off + sum_upto (Suc i) (\<lambda>j. if padded P b (off + j) then 0 else 1)"
      by (simp add: valid_count_def sum_upto_Suc_add [of off i])
    ultimately show ?thesis
      unfolding count_v_def
      using val_bop4_time [OF s_count_v0 sc that(1,2), of 0] c0
      by (simp add: distrib_right)
  qed
  have v_mean: "val mean [b, i, n, 0] = batch_mean None X P b n (off + i)"
    if "b < B" "i < t" "n < N" for b i n
    unfolding mean_def
    using val_bop4_N1 [OF s_sum_v s_count_m that] v_sum_v [OF that] v_count_v [OF that(1,2)]
    by (simp add: batch_mean_def batch_count_def window_def G)
  have v_sum_vv: "val sum_vv [b, i, n, 0]
      = sum_upto (off + Suc i) (masked_sq X P (batch_mean None X P b n) b n)"
    if "b < B" "i < t" "n < N" for b i n
  proof -
    have "masked_sq Xc Pc (\<lambda>k. val mean [b, k, n, 0]) b n j
        = masked_sq X P (batch_mean None X P b n) b n (off + j)" if "j < t" for j
    proof -
      have "masked_sq Xc Pc (\<lambda>k. val mean [b, k, n, 0]) b n j
         = masked_sq Xc Pc (\<lambda>k. batch_mean None X P b n (off + k)) b n j"
        using v_mean [OF \<open>b < B\<close> that \<open>n < N\<close>] by (simp add: masked_sq_def)
      then show ?thesis using masked_sq_chunk [OF cx cp G(1)] by simp
    qed
    then have "val sum_vv0 [b, i, n, 0]
        = (\<Sum>j<Suc i. masked_sq X P (batch_mean None X P b n) b n (off + j))"
      unfolding sum_vv0_def val_cumsum1
      using val_masked_sq_reduce [OF sxc spc s_mean that(1) _ that(3)] that(2) by simp
    then have "val sum_vv0 [b, i, n, 0]
        = sum_upto (Suc i) (\<lambda>j. masked_sq X P (batch_mean None X P b n) b n (off + j))"
      unfolding sum_upto_eq .
    then show ?thesis
      unfolding sum_vv_def
      using val_bop4_time [OF s_sum_vv0 sv that] vv [OF that(1,3)]
      by (simp add: sum_upto_Suc_add [of off i])
  qed
  have v_var: "val variance [b, i, n, 0] = batch_variance None X P b n (off + i)"
    if "b < B" "i < t" "n < N" for b i n
    unfolding variance_def
    using val_bop4_N1 [OF s_sum_vv s_count_m that] v_sum_vv [OF that] v_count_v [OF that(1,2)]
    by (simp add: batch_variance_def batch_count_def window_def G)
  have t1: "off + Suc (t - 1) = off + t" "t - 1 < t" using t by simp_all
  have inv': "stream_inv X P (off + t)
      (CumulativeState (last_frame sum_v) (last_frame count_v) (last_frame sum_vv))"
    unfolding stream_inv_def
    using shape_last_frame [OF s_sum_v t] shape_last_frame [OF s_count_v t]
      shape_last_frame [OF s_sum_vv t] v_sum_v [OF _ t1(2)] v_count_v [OF _ t1(2)]
      v_sum_vv [OF _ t1(2)] t1(1)
    by (simp add: sx val_last_frame [OF s_sum_v] val_last_frame [OF s_count_v]
        val_last_frame [OF s_sum_vv])
  show ?thesis
    using run s_mean s_var v_mean v_var inv' by auto
qed

section \<open>Chunks through the streaming estimator\<close>

lemma shape_slice1:
  "shape x = [B, T, N, K] \<Longrightarrow> off + t \<le> T \<Longrightarrow> shape (slice_axis x 1 off (off + t)) = [B, t, N, K]"
  by (simp add: slice_axis_def)

lemma chunk_of_slice: "chunk_of (slice_axis x 1 off stop) x off"
  by (simp add: chunk_of_def slice_axis_def add.commute)

lemma stream_chunks_StreamMoments:
  assumes sx: "shape X = [B, T, N, G]" and sp: "shape P = [B, T, 1, 1]"
  shows "stream_inv X P off st \<Longrightarrow> off + sum_list ts \<le> T \<Longrightarrow> \<forall>t\<in>set ts. 0 < t \<Longrightarrow>
    \<exists>res. stream_chunks StreamMoments X P off ts st = Inr res \<and> length res = length ts
      \<and> (\<forall>c b i n. c < length ts \<and> b < B \<and> i < ts ! c \<and> n < N \<longrightarrow>
            val (fst (res ! c)) [b, i, n, 0]
              = batch_mean None X P b n (off + sum_list (take c ts) + i)
          \<and> val (snd (res ! c)) [b, i, n, 0]
              = batch_variance None X P b n (off + sum_list (take c ts) + i))"
proof (induction ts arbitrary: off st)
  case Nil
  then show ?case by simp
next
  case (Cons t ts)
  have t: "0 < t" and le: "off + t \<le> T" using Cons.prems by auto
  obtain m v st' where step: "StreamMoments (slice_axis X 1 off (off + t))
        (Some (slice_axis P 1 off (off + t))) st = Inr (m, v, st')"
    and vm: "\<And>b i n. b < B \<Longrightarrow> i < t \<Longrightarrow> n < N \<Longrightarrow>
          val m [b, i, n, 0] = batch_mean None X P b n (off + i)
        \<and> val v [b, i, n, 0] = batch_variance None X P b n (off + i)"
    and inv': "stream_inv X P (off + t) st'"
    using StreamMoments4 [OF sx shape_slice1 [OF sx le] shape_slice1 [OF sp le]
        chunk_of_slice chunk_of_slice t Cons.prems(1)]
    by blast
  have "off + t + sum_list ts \<le> T" "\<forall>t\<in>set ts. 0 < t" using Cons.prems by auto
  from Cons.IH [OF inv' this] obtain rest where
    rest: "stream_chunks StreamMoments X P (off + t) ts st' = Inr rest" "length rest = length ts"
    and vr: "\<And>c b i n. c < length ts \<Longrightarrow> b < B \<Longrightarrow> i < ts ! c \<Longrightarrow> n < N \<Longrightarrow>
            val (fst (rest ! c)) [b, i, n, 0]
              = batch_mean None X P b n (off + t + sum_list (take c ts) + i)
          \<and> val (snd (rest ! c)) [b, i, n, 0]
              = batch_variance None X P b n (off + t + sum_list (take c ts) + i)"
    by blast
  have run: "stream_chunks StreamMoments X P off (t # ts) st = Inr ((m, v) # rest)"
    using step rest by (simp add: bindE_def)
  have "val (fst (((m, v) # rest) ! c)) [b, i, n, 0]
              = batch_mean None X P b n (off + sum_list (take c (t # ts)) + i)
          \<and> val (snd (((m, v) # rest) ! c)) [b, i, n, 0]
              = batch_variance None X P b n (off + sum_list (take c (t # ts)) + i)"
    if "c < length (t # ts)" "b < B" "i < (t # ts) ! c" "n < N" for c b i n
  proof (cases c)
    case 0
    then show ?thesis using vm [of b i n] that by simp
  next
    case (Suc c')
    then show ?thesis using vr [of c' b i n] that by (simp add: add.assoc)
  qed
  then show ?case using run rest(2) by auto
qed

section \<open>Normalization and scale and shift\<close>




lemma valid_index_imp_compat_bidx:
  assumes "list_all2 (\<lambda>m x. m = 1 \<or> m = x) sm sx"
  shows "bidx sm (bidx sx i) = bidx sm i"
  using bidx_absorb [OF assms] .



lemma bshape_single_aux:
  "s \<noteq> [] \<Longrightarrow>
   map (\<lambda>(d, e). if d = Suc 0 then e else d) (zip s (replicate (length s - Suc 0) (Suc 0) @ [last s])) = s"
proof (induction s)
  case Nil then show ?case by simp
next
  case (Cons a s)
  show ?case
  proof (cases s)
    case Nil then show ?thesis by simp
  next
    case (Cons b s')
    then show ?thesis using Cons.IH by simp
  qed
qed

lemma bshape_single:
  assumes "s \<noteq> []" "last s = d"
  shows "bshape s [d] = s"
proof -
  have "max (length s) (Suc 0) = length s" using assms(1) by (cases s) simp_all
  then show ?thesis
    using bshape_single_aux [OF assms(1)] assms(2)
    by (simp add: bshape_def align_def)
qed





section \<open>The windowed streaming step: reshapes, slices and lengths\<close>

lemma flat_index_foldl:
  "length i = length s \<Longrightarrow>
   foldl (\<lambda>acc (d, k). acc * d + k) (a::nat) (zip s i)
     = a * prod_list s + foldl (\<lambda>acc (d, k). acc * d + k) 0 (zip s i)"
proof (induction i s arbitrary: a rule: list_induct2)
  case Nil show ?case by simp
next
  case (Cons k i d s)
  show ?case
    using Cons.IH [of "a * d + k"] Cons.IH [of k]
    by (simp add: algebra_simps)
qed

lemma flat_index_Cons:
  "length i = length s \<Longrightarrow> flat_index (d # s) (k # i) = k * prod_list s + flat_index s i"
  using flat_index_foldl [of i s k] by (simp add: flat_index_def)

lemma flat_index_Nil [simp]: "flat_index [] [] = 0"
  by (simp add: flat_index_def)

lemma flat_index_less: "valid_index s i \<Longrightarrow> flat_index s i < prod_list s"
proof (induction s arbitrary: i)
  case Nil then show ?case by simp
next
  case (Cons d s)
  then obtain k i' where i: "i = k # i'" "k < d" "valid_index s i'"
    by (auto simp: valid_index_Cons_iff)
  have l: "length i' = length s" using i(3) by (rule valid_index_length)
  have "flat_index s i' < prod_list s" using Cons.IH [OF i(3)] .
  moreover have "Suc k \<le> d" using i(2) by simp
  then have "Suc k * prod_list s \<le> d * prod_list s" by (rule mult_le_mono1)
  ultimately show ?case using i(1) l by (simp add: flat_index_Cons)
qed

lemma unflat_flat: "valid_index s i \<Longrightarrow> unflat_index s (flat_index s i) = i"
proof (induction s arbitrary: i)
  case Nil then show ?case by simp
next
  case (Cons d s)
  then obtain k i' where i: "i = k # i'" "k < d" "valid_index s i'"
    by (auto simp: valid_index_Cons_iff)
  have l: "length i' = length s" using i(3) by (rule valid_index_length)
  have lt: "flat_index s i' < prod_list s" using flat_index_less [OF i(3)] .
  show ?case
    using i l lt Cons.IH [OF i(3)] by (simp add: flat_index_Cons)
qed

lemma val_reshape_same:
  "shape x = s \<Longrightarrow> valid_index s i \<Longrightarrow> val (reshape x s) i = val x i"
  by (simp add: reshape_def unflat_flat)

lemma val_reshape_flat:
  "valid_index (shape x) j \<Longrightarrow> flat_index s i = flat_index (shape x) j \<Longrightarrow>
   val (reshape x s) i = val x j"
  by (simp add: reshape_def unflat_flat)

lemma shape_squeeze23: "shape x = [B, T, 1, 1] \<Longrightarrow> shape (squeeze x [2, 3]) = [B, T]"
  by (simp add: squeeze_def upt_rec)

lemma val_squeeze23: "shape x = [B, T, 1, 1] \<Longrightarrow> val (squeeze x [2, 3]) [b, t] = val x [b, t, 0, 0]"
  by (simp add: squeeze_def eval_nat_numeral)

lemma shape_squeeze123: "shape x = [B, 1, 1, 1] \<Longrightarrow> shape (squeeze x [1, 2, 3]) = [B]"
  by (simp add: squeeze_def upt_rec)

lemma val_squeeze123: "shape x = [B, 1, 1, 1] \<Longrightarrow> val (squeeze x [1, 2, 3]) [b] = val x [b, 0, 0, 0]"
  by (simp add: squeeze_def eval_nat_numeral)

lemma shape_index_00: "shape x = [B, T, N, K] \<Longrightarrow> shape (index_00 x) = [B, T]"
  by (simp add: index_00_def)

lemma val_index_00: "val (index_00 x) [b, t] = val x [b, t, 0, 0]"
  by (simp add: index_00_def)

lemma val_LengthsFromPaddings:
  "shape q = [B, T] \<Longrightarrow>
   val (LengthsFromPaddings q) [b] = real (row_length (\<lambda>k. val q [b, k] > 0) T)"
  by (simp add: LengthsFromPaddings_def row_length_def rev_map dropWhile_map comp_def)

lemma shape_LengthsFromPaddings: "shape q = [B, T] \<Longrightarrow> shape (LengthsFromPaddings q) = [B]"
  by (simp add: LengthsFromPaddings_def)

lemma row_length_le: "row_length pad t \<le> t"
  unfolding row_length_def
  by (metis diff_zero length_dropWhile_le length_map length_rev length_upt)

lemma val_cast_int32_nat: "val x i = real k \<Longrightarrow> val (cast x int32) i = real k"
  by (simp add: cast_def)

lemma shape_cast [simp]: "shape (cast x dt) = shape x"
  by (simp add: cast_def)

lemma shape_PaddingsFromLengths: "shape l = [B] \<Longrightarrow> shape (PaddingsFromLengths l m) = [B, m]"
  by (simp add: PaddingsFromLengths_def)

lemma val_PaddingsFromLengths:
  "val l [b] = real k \<Longrightarrow> val (PaddingsFromLengths l m) [b, j] = (if j < k then 0 else 1)"
  by (simp add: PaddingsFromLengths_def)

lemma shape_slice_axis1:
  "shape x = [B, T, N, K] \<Longrightarrow> shape (slice_axis x 1 a c) = [B, min c T - min a T, N, K]"
  by (simp add: slice_axis_def)

lemma val_slice_axis1: "val (slice_axis x (Suc 0) a c) [b, t, n, k] = val x [b, t + a, n, k]"
  by (simp add: slice_axis_def)

lemma shape_slice_axis1_2:
  "shape x = [B, T] \<Longrightarrow> shape (slice_axis x 1 a c) = [B, min c T - min a T]"
  by (simp add: slice_axis_def)

lemma val_slice_axis1_2: "val (slice_axis x (Suc 0) a c) [b, t] = val x [b, t + a]"
  by (simp add: slice_axis_def)

lemma reduce_current4:
  assumes sy: "shape Y = [B, t, N, G]" and sp: "shape Pc = [B, t, 1, 1]"
  shows "shape (fst (reduce_current 4 Y Pc)) = [B, t, N, 1]"
    and "shape (snd (reduce_current 4 Y Pc)) = [B, t]"
    and "\<And>b i n. b < B \<Longrightarrow> i < t \<Longrightarrow> n < N \<Longrightarrow>
       val (fst (reduce_current 4 Y Pc)) [b, i, n, 0] = sum_upto (Suc i) (masked_sum Y Pc b n)"
    and "\<And>b i. val (snd (reduce_current 4 Y Pc)) [b, i] = val Pc [b, i, 0, 0]"
proof -
  have f: "fst (reduce_current 4 Y Pc) = cumsum (reduce_sum (ApplyPadding Pc Y) [3] True) (Suc 0)"
    and s: "snd (reduce_current 4 Y Pc) = squeeze Pc [2, 3]"
    by (simp_all add: reduce_current_def Let_def)
  show "shape (fst (reduce_current 4 Y Pc)) = [B, t, N, 1]"
    unfolding f using shape_reduce_sum3 [OF shape_AP4 [OF sp sy]] by simp
  show "shape (snd (reduce_current 4 Y Pc)) = [B, t]"
    unfolding s using shape_squeeze23 [OF sp] .
  show "val (snd (reduce_current 4 Y Pc)) [b, i] = val Pc [b, i, 0, 0]" for b i
    unfolding s using val_squeeze23 [OF sp] .
  show "val (fst (reduce_current 4 Y Pc)) [b, i, n, 0] = sum_upto (Suc i) (masked_sum Y Pc b n)"
    if "b < B" "i < t" "n < N" for b i n
    unfolding f val_cumsum1 sum_upto_eq
    using val_masked_reduce [OF sy sp that(1) _ that(3)] that(2) by simp
qed

lemma shape_concat2:
  "shape (concat2 a x y) = (shape x)[a := shape x ! a + shape y ! a]"
  by (simp add: concat2_def)

lemma val_concat2_4:
  "shape x = [B, T, N, K] \<Longrightarrow>
   val (concat2 (Suc 0) x y) [b, j, n, k] = (if j < T then val x [b, j, n, k] else val y [b, j - T, n, k])"
  by (simp add: concat2_def)

lemma val_concat2_2:
  "shape x = [B, T] \<Longrightarrow>
   val (concat2 (Suc 0) x y) [b, j] = (if j < T then val x [b, j] else val y [b, j - T])"
  by (simp add: concat2_def)

lemma concat_single_spec:
  assumes sci: "shape ci = [1, t, N, 1]" and scp: "shape cp = [1, t]"
    and sca: "shape cached = [1, W, N, 1]" and scpd: "shape cpads = [1, W]"
    and vcc: "val ccount [0] = real cc" and vli: "val last_index [0, 0] = real (cc - 1)"
    and vln: "val lens [0] = real len" and ccW: "cc \<le> W" and lent: "len \<le> t"
  shows "\<exists>concat cpad. concat_single 1 t N W ccount last_index lens ci cp cached cpads
        = Inr (concat, cpad)
    \<and> shape concat = [1, W + t, N, 1] \<and> shape cpad = [1, W + t]
    \<and> (\<forall>j n. j < W + t \<and> n < N \<longrightarrow> val concat [0, j, n, 0]
          = concat_val cc len (\<lambda>j. val cached [0, j, n, 0])
              (\<lambda>i. val ci [0, i, n, 0] + val cached [0, cc - 1, n, 0]) j)
    \<and> (\<forall>j. j < W + t \<longrightarrow> val cpad [0, j]
          = (if j < cc then val cpads [0, j] else if j < cc + len then val cp [0, j - cc] else 1))"
proof -
  define last where "last = reshape (index_axis1 cached (cc - 1)) [1, 1, N, 1]"
  define cur where "cur = bop (+) ci last"
  define npf where "npf = W + t - cc - len"
  define concat where "concat = tf_concat [slice_axis cached (Suc 0) 0 cc, slice_axis cur (Suc 0) 0 len,
       zeros [1, npf, N, 1] (dtype cached)] (Suc 0)"
  define cpad where "cpad = tf_concat [slice_axis cpads (Suc 0) 0 cc, slice_axis cp (Suc 0) 0 len,
       ones [1, npf] (dtype cpads)] (Suc 0)"
  have slast: "shape last = [1, 1, N, 1]" by (simp add: last_def)
  have vlast: "val last [0, 0, n, 0] = val cached [0, cc - 1, n, 0]" if "n < N" for n
  proof -
    have "val last [0, 0, n, 0] = val (index_axis1 cached (cc - 1)) [0, n, 0]"
      unfolding last_def
      by (rule val_reshape_flat) (use that in \<open>simp_all add: index_axis1_def sca flat_index_def\<close>)
    then show ?thesis by (simp add: index_axis1_def)
  qed
  have scur: "shape cur = [1, t, N, 1]"
    unfolding cur_def using shape_bop4_time [OF sci slast] .
  have vcur: "val cur [0, i, n, 0] = val ci [0, i, n, 0] + val cached [0, cc - 1, n, 0]"
    if "i < t" "n < N" for i n
    unfolding cur_def using val_bop4_time [OF sci slast _ that] vlast [OF that(2)] by simp
  have sA: "shape (slice_axis cached (Suc 0) 0 cc) = [1, cc, N, 1]"
    using shape_slice_axis1 [OF sca, of 0 cc] ccW by simp
  have sB: "shape (slice_axis cur (Suc 0) 0 len) = [1, len, N, 1]"
    using shape_slice_axis1 [OF scur, of 0 len] lent by simp
  have sAB: "shape (concat2 (Suc 0) (slice_axis cached (Suc 0) 0 cc) (slice_axis cur (Suc 0) 0 len)) = [1, cc + len, N, 1]"
    by (simp add: shape_concat2 sA sB)
  have le: "cc + len \<le> W + t" using ccW lent by simp
  have sconcat: "shape concat = [1, W + t, N, 1]"
    unfolding concat_def tf_concat_def using le
    by (simp add: shape_concat2 sA sB zeros_def full_def npf_def)
  have sA2: "shape (slice_axis cpads (Suc 0) 0 cc) = [1, cc]"
    using shape_slice_axis1_2 [OF scpd, of 0 cc] ccW by simp
  have sB2: "shape (slice_axis cp (Suc 0) 0 len) = [1, len]"
    using shape_slice_axis1_2 [OF scp, of 0 len] lent by simp
  have scpad: "shape cpad = [1, W + t]"
    unfolding cpad_def tf_concat_def using le
    by (simp add: shape_concat2 sA2 sB2 ones_def full_def npf_def)
  have run: "concat_single 1 t N W ccount last_index lens ci cp cached cpads
        = Inr (reshape concat [1, W + t, N, 1], reshape cpad [1, W + t])"
    unfolding concat_single_def
    using le sconcat scpad
    by (simp add: vcc vli vln cast_def bindE_def check_def reshapeE_def index_axis1_def sca
        Let_def last_def cur_def concat_def cpad_def npf_def)
  have vconcat: "val (reshape concat [1, W + t, N, 1]) [0, j, n, 0]
          = concat_val cc len (\<lambda>j. val cached [0, j, n, 0])
              (\<lambda>i. val ci [0, i, n, 0] + val cached [0, cc - 1, n, 0]) j"
    if "j < W + t" "n < N" for j n
  proof -
    have "val (reshape concat [1, W + t, N, 1]) [0, j, n, 0] = val concat [0, j, n, 0]"
      using val_reshape_same [OF sconcat] that by simp
    also have "\<dots> = concat_val cc len (\<lambda>j. val cached [0, j, n, 0])
              (\<lambda>i. val ci [0, i, n, 0] + val cached [0, cc - 1, n, 0]) j"
      unfolding concat_def tf_concat_def concat_val_def
      using that vcur [of "j - cc" n] lent
      by (auto simp: val_concat2_4 [OF sAB] val_concat2_4 [OF sA] val_slice_axis1 zeros_def full_def)
    finally show ?thesis .
  qed
  have vcpad: "val (reshape cpad [1, W + t]) [0, j]
          = (if j < cc then val cpads [0, j] else if j < cc + len then val cp [0, j - cc] else 1)"
    if "j < W + t" for j
  proof -
    have sAB2: "shape (concat2 (Suc 0) (slice_axis cpads (Suc 0) 0 cc) (slice_axis cp (Suc 0) 0 len)) = [1, cc + len]"
      by (simp add: shape_concat2 sA2 sB2)
    have "val (reshape cpad [1, W + t]) [0, j] = val cpad [0, j]"
      using val_reshape_same [OF scpad] that by simp
    also have "\<dots> = (if j < cc then val cpads [0, j] else if j < cc + len then val cp [0, j - cc] else 1)"
      unfolding cpad_def tf_concat_def
      by (auto simp: val_concat2_2 [OF sAB2] val_concat2_2 [OF sA2] val_slice_axis1_2 ones_def full_def)
    finally show ?thesis .
  qed
  show ?thesis using run vconcat vcpad by simp
qed

lemma Trim_single:
  assumes sx: "shape x = [1, L, N, 1]" and vt: "val trim [0] = real a" and le: "a + out \<le> L"
  shows "\<exists>y. TrimFromTheFront True 1 N x trim keep out = Inr y \<and> shape y = [1, out, N, 1]
    \<and> (\<forall>i n. i < out \<and> n < N \<longrightarrow> val y [0, i, n, 0] = val x [0, a + i, n, 0])"
proof -
  define y where "y = slice_axis x (Suc 0) a (a + out)"
  have sy: "shape y = [1, out, N, 1]"
    unfolding y_def using shape_slice_axis1 [OF sx, of a "a + out"] le by simp
  have run: "TrimFromTheFront True 1 N x trim keep out = Inr (reshape y [1, out, N, 1])"
    unfolding TrimFromTheFront_def using sy
    by (simp add: Let_def cast_def vt reshapeE_def y_def)
  have "val (reshape y [1, out, N, 1]) [0, i, n, 0] = val x [0, a + i, n, 0]"
    if "i < out" "n < N" for i n
    using val_reshape_same [OF sy, of "[0, i, n, 0]"] that
    by (simp add: y_def val_slice_axis1 add.commute)
  then show ?thesis using run by simp
qed

lemma windowed_tail:
  assumes sc: "shape cat = [B, L, N, 1]" and sp: "shape cpad = [B, L]"
    and W: "W \<le> L" and B: "0 < B"
  shows "shape (reshape cpad [B, prod_list (shape cpad) div B, 1, 1]) = [B, L, 1, 1]"
    and "\<And>b j. b < B \<Longrightarrow> j < L \<Longrightarrow>
       val (reshape cpad [B, prod_list (shape cpad) div B, 1, 1]) [b, j, 0, 0] = val cpad [b, j]"
    and "shape (WindowedCumSum cat (reshape cpad [B, prod_list (shape cpad) div B, 1, 1])
           (int W) (Suc 0)) = [B, L, N, 1]"
    and "\<And>b j n. b < B \<Longrightarrow> j < L \<Longrightarrow> n < N \<Longrightarrow>
       val (WindowedCumSum cat (reshape cpad [B, prod_list (shape cpad) div B, 1, 1])
           (int W) (Suc 0)) [b, j, n, 0]
       = windowed_at W (\<lambda>j. val cat [b, j, n, 0]) (\<lambda>j. val cpad [b, j] > 0) j"
proof -
  let ?c4 = "reshape cpad [B, prod_list (shape cpad) div B, 1, 1]"
  show s4: "shape ?c4 = [B, L, 1, 1]" using B by (simp add: sp)
  show v4: "val ?c4 [b, j, 0, 0] = val cpad [b, j]" if "b < B" "j < L" for b j
  proof -
    have e: "?c4 = reshape cpad [B, L, 1, 1]" using B by (simp add: sp)
    show ?thesis unfolding e
      by (rule val_reshape_flat) (use that in \<open>simp_all add: sp flat_index_def\<close>)
  qed
  have s1: "shape cat = B # L # [N, 1]" using sc by simp
  have s2: "shape ?c4 = B # L # replicate (length [N, 1::nat]) 1" using s4 by simp
  have w: "0 \<le> int W" "int W \<le> int L" using W by simp_all
  show "shape (WindowedCumSum cat ?c4 (int W) (Suc 0)) = [B, L, N, 1]"
    using shape_WindowedCumSum [OF s1 s2, of "int W"] sc by simp
  show "val (WindowedCumSum cat ?c4 (int W) (Suc 0)) [b, j, n, 0]
       = windowed_at W (\<lambda>j. val cat [b, j, n, 0]) (\<lambda>j. val cpad [b, j] > 0) j"
    if "b < B" "j < L" "n < N" for b j n
  proof -
    have v: "valid_index (shape cat) (b # j # [n, 0])" using that sc by simp
    show ?thesis
      using val_WindowedCumSum [OF s1 s2 w v] v4 [OF that(1,2)]
      by (simp add: windowed_at_def nat_diff_distrib')
  qed
qed

lemma ComputeWindowedCumSum_single:
  assumes sy: "shape Y = [1, t, N, G]" and sp: "shape Pc = [1, t, 1, 1]"
    and sca: "shape cached = [1, W, N, 1]" and scpd: "shape cpads = [1, W]"
    and vcpd: "\<And>j. val cpads [0, j] = (if j < cc then 0 else 1)"
    and vcc: "val ccount [0] = real cc" and vli: "val last_index [0, 0] = real (cc - 1)"
    and vln: "val lens [0] = real len" and ccW: "cc \<le> W" and lent: "len \<le> t"
  shows "\<exists>cs cat cpad. ComputeWindowedCumSum True 4 1 t N W ccount last_index lens Y Pc
           cached cpads = Inr (cs, cat, cpad)
    \<and> shape cs = [1, t, N, 1] \<and> shape cat = [1, W + t, N, 1] \<and> shape cpad = [1, W + t, 1, 1]
    \<and> (\<forall>j n. j < W + t \<and> n < N \<longrightarrow> val cat [0, j, n, 0]
          = concat_val cc len (\<lambda>j. val cached [0, j, n, 0])
              (\<lambda>i. sum_upto (Suc i) (masked_sum Y Pc 0 n) + val cached [0, cc - 1, n, 0]) j)
    \<and> (\<forall>j. j < W + t \<longrightarrow> (val cpad [0, j, 0, 0] > 0) = concat_pad cc len (padded Pc 0) j)
    \<and> (\<forall>i n. i < t \<and> n < N \<longrightarrow> val cs [0, i, n, 0]
          = windowed_at W
              (concat_val cc len (\<lambda>j. val cached [0, j, n, 0])
                (\<lambda>i. sum_upto (Suc i) (masked_sum Y Pc 0 n) + val cached [0, cc - 1, n, 0]))
              (concat_pad cc len (padded Pc 0)) (cc + i))"
proof -
  obtain ci cp where rc: "reduce_current 4 Y Pc = (ci, cp)" by (cases "reduce_current 4 Y Pc")
  note r4 = reduce_current4 [OF sy sp, unfolded rc fst_conv snd_conv]
  obtain cat cpad where
    cs: "concat_single 1 t N W ccount last_index lens ci cp cached cpads = Inr (cat, cpad)"
    and scat: "shape cat = [1, W + t, N, 1]" and scpad: "shape cpad = [1, W + t]"
    and vcat: "\<And>j n. j < W + t \<Longrightarrow> n < N \<Longrightarrow> val cat [0, j, n, 0]
          = concat_val cc len (\<lambda>j. val cached [0, j, n, 0])
              (\<lambda>i. val ci [0, i, n, 0] + val cached [0, cc - 1, n, 0]) j"
    and vcpad: "\<And>j. j < W + t \<Longrightarrow> val cpad [0, j]
          = (if j < cc then val cpads [0, j] else if j < cc + len then val cp [0, j - cc] else 1)"
    using concat_single_spec [OF r4(1) r4(2) sca scpd vcc vli vln ccW lent] by blast
  let ?f = "\<lambda>n. concat_val cc len (\<lambda>j. val cached [0, j, n, 0])
              (\<lambda>i. sum_upto (Suc i) (masked_sum Y Pc 0 n) + val cached [0, cc - 1, n, 0])"
  have vcat2: "val cat [0, j, n, 0] = ?f n j" if "j < W + t" "n < N" for j n
    using vcat [OF that] r4(3) [of 0 "j - cc" n] that lent
    by (auto simp: concat_val_def)
  have vcpad': "(val cpad [0, j] > 0) = concat_pad cc len (padded Pc 0) j" if "j < W + t" for j
    using vcpad [OF that] by (simp add: concat_pad_def vcpd r4(4) padded_def)
  let ?c4 = "reshape cpad [1, prod_list (shape cpad) div 1, 1, 1]"
  let ?w = "WindowedCumSum cat ?c4 (int W) (Suc 0)"
  have le0: "W \<le> W + t" and one: "0 < (1::nat)" by simp_all
  note wt = windowed_tail [OF scat scpad le0 one]
  have sw: "shape ?w = [1, W + t, N, 1]" using wt(3) by simp
  obtain y where tr: "TrimFromTheFront True 1 N ?w ccount lens t = Inr y"
    and sy': "shape y = [1, t, N, 1]"
    and vy: "\<And>i n. i < t \<Longrightarrow> n < N \<Longrightarrow> val y [0, i, n, 0] = val ?w [0, cc + i, n, 0]"
    using Trim_single [OF sw vcc, of t lens] ccW by auto
  have run: "ComputeWindowedCumSum True 4 1 t N W ccount last_index lens Y Pc cached cpads
      = Inr (y, cat, ?c4)"
    unfolding ComputeWindowedCumSum_def rc using cs tr
    by (simp add: bindE_def check_def Let_def)
  have v4: "(val ?c4 [0, j, 0, 0] > 0) = concat_pad cc len (padded Pc 0) j" if "j < W + t" for j
    using wt(2) [OF one that] vcpad' [OF that] by simp
  have vw: "val y [0, i, n, 0] = windowed_at W (?f n) (concat_pad cc len (padded Pc 0)) (cc + i)"
    if "i < t" "n < N" for i n
  proof -
    have j: "cc + i < W + t" using that ccW by simp
    have "val ?w [0, cc + i, n, 0]
       = windowed_at W (\<lambda>j. val cat [0, j, n, 0]) (\<lambda>j. val cpad [0, j] > 0) (cc + i)"
      using wt(4) [OF one j that(2)] by simp
    also have "\<dots> = windowed_at W (?f n) (concat_pad cc len (padded Pc 0)) (cc + i)"
      using vcat2 [OF j that(2)] vcat2 [of "cc + i - W" n] vcpad' [OF j] j that(2)
      by (simp add: windowed_at_def)
    finally show ?thesis using vy [OF that] by simp
  qed
  show ?thesis using run sy' scat wt(1) vcat2 v4 vw by simp
qed

lemma row_length_cong: "(\<And>j. j < t \<Longrightarrow> f j = g j) \<Longrightarrow> row_length f t = row_length g t"
  unfolding row_length_def by (rule arg_cong [where f = "\<lambda>l. length (dropWhile (\<lambda>x. x) (rev l))"]) simp

lemma row_length_bound:
  assumes "\<And>j. k \<le> j \<Longrightarrow> j < t \<Longrightarrow> pad j"
  shows "row_length pad t \<le> k"
proof (cases "k \<le> t")
  case False
  then show ?thesis using row_length_le [of pad t] by simp
next
  case True
  have "map pad [0..<t] = map pad [0..<k] @ map pad [k..<t]"
    using True by (metis le0 map_append upt_add_eq_append le_add_diff_inverse)
  moreover have "dropWhile (\<lambda>x. x) (rev (map pad [k..<t]) @ rev (map pad [0..<k]))
      = dropWhile (\<lambda>x. x) (rev (map pad [0..<k]))"
    by (rule dropWhile_append2) (use assms in auto)
  ultimately have "dropWhile (\<lambda>x. x) (rev (map pad [0..<t]))
      = dropWhile (\<lambda>x. x) (rev (map pad [0..<k]))"
    by simp
  then have "row_length pad t = row_length pad k" by (simp add: row_length_def)
  then show ?thesis using row_length_le [of pad k] by simp
qed

lemma max_real_pred: "max (real cc - 1) 0 = real (cc - 1)"
  by (cases cc) auto

lemma shape_expand_dims1: "shape x = [B] \<Longrightarrow> shape (expand_dims x 1) = [B, 1]"
  by (simp add: expand_dims_def)

lemma val_expand_dims1: "val (expand_dims x (Suc 0)) [b, k] = val x [b]"
  by (simp add: expand_dims_def)

lemma masked_sum_sqdiff:
  assumes "shape X = [B, t, N, G]" "shape m = [B, t, N, 1]" "b < B" "k < t" "n < N"
  shows "masked_sum (squared_difference X m) P b n k = masked_sq X P (\<lambda>k. val m [b, k, n, 0]) b n k"
  using assms
  by (simp add: masked_sum_def masked_sq_def shape_sqdiff4 [OF assms(1,2)] sum_upto_eq
      val_sqdiff4 [OF assms(1,2)])

lemma GetUpdatedCount_spec:
  assumes sp: "shape Pc = [B, t, 1, 1]" and sc: "shape ccount = [B]"
  shows "shape (GetUpdatedCount B W dt ccount Pc) = [B, t, 1, 1]"
    and "\<And>b i. b < B \<Longrightarrow> i < t \<Longrightarrow> val (GetUpdatedCount B W dt ccount Pc) [b, i, 0, 0]
      = min (sum_upto (Suc i) (\<lambda>k. if padded Pc b k then 0 else 1) + val ccount [b]) (real W)"
proof -
  let ?c0 = "cumsum (reduce_sum (ApplyPadding Pc (scalar 1 dt)) [3] True) (Suc 0)"
  let ?r = "reshape ccount [B, 1, 1, 1]"
  have s0: "shape ?c0 = [B, t, 1, 1]" using shape_count_reduce [OF sp] by simp
  have sr: "shape ?r = [B, 1, 1, 1]" by simp
  have e: "GetUpdatedCount B W dt ccount Pc = tmap (\<lambda>c. min c (real W)) (bop (+) ?c0 ?r)"
    by (simp add: GetUpdatedCount_def Let_def)
  show "shape (GetUpdatedCount B W dt ccount Pc) = [B, t, 1, 1]"
    unfolding e using shape_bop4_time [OF s0 sr] by simp
  show "val (GetUpdatedCount B W dt ccount Pc) [b, i, 0, 0]
      = min (sum_upto (Suc i) (\<lambda>k. if padded Pc b k then 0 else 1) + val ccount [b]) (real W)"
    if "b < B" "i < t" for b i
  proof -
    have "val ?r [b, 0, 0, 0] = val ccount [b]"
      by (rule val_reshape_flat) (use that in \<open>simp_all add: sc flat_index_def\<close>)
    moreover have "val ?c0 [b, i, 0, 0] = sum_upto (Suc i) (\<lambda>k. if padded Pc b k then 0 else 1)"
      unfolding val_cumsum1 sum_upto_eq
      using val_count_reduce [OF sp that(1)] that(2) by simp
    ultimately show ?thesis
      unfolding e using val_bop4_time [OF s0 sr that, of 0] by simp
  qed
qed


lemma concat_val_cong:
  assumes "\<And>k. k < len \<Longrightarrow> f k = g k"
  shows "concat_val cc len cached f j = concat_val cc len cached g j"
  using assms by (auto simp: concat_val_def)

lemma cum_row_cong:
  assumes "\<And>k. k < t \<Longrightarrow> f k = g k" "i < t"
  shows "cum_row cc cached f i = cum_row cc cached g i"
  using assms by (simp add: cum_row_def sum_upto_eq)

lemma windowed_row_cong:
  assumes "\<And>k. k < t \<Longrightarrow> f k = g k" "len \<le> t"
  shows "windowed_row w cc len cached f pad i = windowed_row w cc len cached g pad i"
proof -
  have "\<And>j. concat_val cc len cached (cum_row cc cached f) j
      = concat_val cc len cached (cum_row cc cached g) j"
  proof (rule concat_val_cong)
    fix j k assume "k < len"
    then have "k < t" using assms(2) by simp
    then show "cum_row cc cached f k = cum_row cc cached g k"
      using cum_row_cong [of t f g k] assms(1) by simp
  qed
  then show ?thesis by (simp add: windowed_row_def windowed_at_def)
qed

lemma new_cached_row_cong:
  assumes "\<And>k. k < t \<Longrightarrow> f k = g k" "len \<le> t"
  shows "new_cached_row w cc len cached f pad t' j = new_cached_row w cc len cached g pad t' j"
proof -
  have "\<And>j. concat_val cc len cached (cum_row cc cached f) j
      = concat_val cc len cached (cum_row cc cached g) j"
  proof (rule concat_val_cong)
    fix j k assume "k < len"
    then have "k < t" using assms(2) by simp
    then show "cum_row cc cached f k = cum_row cc cached g k"
      using cum_row_cong [of t f g k] assms(1) by simp
  qed
  then show ?thesis by (simp add: new_cached_row_def)
qed

lemma StreamWindowedMoments_single:
  assumes pw: "p_window_size p = int W"
    and sx: "shape Xc = [1, t, N, G]" and sp: "shape Pc = [1, t, 1, 1]"
    and ss: "shape s = [1, W, N, 1]" and sv: "shape v = [1, W, N, 1]"
    and sc: "shape c = [1, 1, 1, 1]"
    and vc: "val c [0, 0, 0, 0] = real cc" and ccW: "cc \<le> W"
  shows "\<exists>m var s' v' c'.
      StreamWindowedMoments_path True p Xc (Some Pc) (WindowedState s v c)
        = Inr (m, var, WindowedState s' v' c')
    \<and> shape m = [1, t, N, 1] \<and> shape var = [1, t, N, 1]
    \<and> shape s' = [1, W, N, 1] \<and> shape v' = [1, W, N, 1] \<and> shape c' = [1, 1, 1, 1]
    \<and> (\<forall>i n. i < t \<and> n < N \<longrightarrow>
          val m [0, i, n, 0]
            = windowed_row W cc (row_length (padded Pc 0) t) (\<lambda>j. val s [0, j, n, 0])
                (masked_sum Xc Pc 0 n) (padded Pc 0) i
              / max (step_count W cc (padded Pc 0) i * real G) 1
        \<and> val var [0, i, n, 0]
            = windowed_row W cc (row_length (padded Pc 0) t) (\<lambda>j. val v [0, j, n, 0])
                (masked_sq Xc Pc (\<lambda>k. val m [0, k, n, 0]) 0 n) (padded Pc 0) i
              / max (step_count W cc (padded Pc 0) i * real G) 1)
    \<and> val c' [0, 0, 0, 0] = real (new_count W cc (row_length (padded Pc 0) t) (padded Pc 0) t)
    \<and> (\<forall>j n. j < W \<and> n < N \<longrightarrow>
          val s' [0, j, n, 0]
            = new_cached_row W cc (row_length (padded Pc 0) t) (\<lambda>j. val s [0, j, n, 0])
                (masked_sum Xc Pc 0 n) (padded Pc 0) t j
        \<and> val v' [0, j, n, 0]
            = new_cached_row W cc (row_length (padded Pc 0) t) (\<lambda>j. val v [0, j, n, 0])
                (masked_sq Xc Pc (\<lambda>k. val m [0, k, n, 0]) 0 n) (padded Pc 0) t j)"
proof -
  define len where "len = row_length (padded Pc 0) t"
  define pad where "pad = padded Pc 0"
  let ?ccount = "squeeze c [1, 2, 3]"
  let ?cpads = "PaddingsFromLengths ?ccount W"
  let ?li = "cast (expand_dims (tmap (\<lambda>c. max c 0) (tmap (\<lambda>c. c - 1) ?ccount)) 1) int32"
  let ?lens = "cast (LengthsFromPaddings (index_00 Pc)) int32"
  have r4: "rank Xc = 4" by (simp add: rank_def sx)
  have sccount: "shape ?ccount = [1]" using shape_squeeze123 [OF sc] .
  have vcc: "val ?ccount [0] = real cc" using val_squeeze123 [OF sc, of 0] vc by simp
  have scpd: "shape ?cpads = [1, W]" using shape_PaddingsFromLengths [OF sccount] .
  have vcpd: "\<And>j. val ?cpads [0, j] = (if j < cc then 0 else 1)"
    using val_PaddingsFromLengths [OF vcc] by simp
  have vli: "val ?li [0, 0] = real (cc - 1)"
    using vcc by (simp add: cast_def val_expand_dims1 max_real_pred)
  have lent: "len \<le> t" unfolding len_def by (rule row_length_le)
  have vln0: "val (LengthsFromPaddings (index_00 Pc)) [0] = real len"
    using val_LengthsFromPaddings [OF shape_index_00 [OF sp], of 0]
    by (simp add: val_index_00 len_def padded_def [abs_def])
  have vln: "val ?lens [0] = real len" using vln0 by (simp add: cast_def)
  obtain sum_v cat1 cpad where
    c1: "ComputeWindowedCumSum True 4 1 t N W ?ccount ?li ?lens Xc Pc s ?cpads
           = Inr (sum_v, cat1, cpad)"
    and ssum: "shape sum_v = [1, t, N, 1]" and scat1: "shape cat1 = [1, W + t, N, 1]"
    and scpad: "shape cpad = [1, W + t, 1, 1]"
    and vcat1: "\<And>j n. j < W + t \<Longrightarrow> n < N \<Longrightarrow> val cat1 [0, j, n, 0]
          = concat_val cc len (\<lambda>j. val s [0, j, n, 0])
              (\<lambda>i. sum_upto (Suc i) (masked_sum Xc Pc 0 n) + val s [0, cc - 1, n, 0]) j"
    and vcpad: "\<And>j. j < W + t \<Longrightarrow> (val cpad [0, j, 0, 0] > 0) = concat_pad cc len pad j"
    and vsum: "\<And>i n. i < t \<Longrightarrow> n < N \<Longrightarrow> val sum_v [0, i, n, 0]
          = windowed_at W
              (concat_val cc len (\<lambda>j. val s [0, j, n, 0])
                (\<lambda>i. sum_upto (Suc i) (masked_sum Xc Pc 0 n) + val s [0, cc - 1, n, 0]))
              (concat_pad cc len pad) (cc + i)"
    using ComputeWindowedCumSum_single [OF sx sp ss scpd vcpd vcc vli vln ccW lent]
    unfolding pad_def by blast
  let ?count = "GetUpdatedCount 1 W (dtype Xc) ?ccount Pc"
  note gc = GetUpdatedCount_spec [OF sp sccount, where W = W and dt = "dtype Xc"]
  let ?div = "tmap (\<lambda>c. max (c * real G) 1) ?count"
  have sdiv: "shape ?div = [1, t, 1, 1]" using gc(1) by simp
  have vdiv: "val ?div [0, i, 0, 0] = max (step_count W cc pad i * real G) 1" if "i < t" for i
    using gc(2) [of 0 i] that vcc by (simp add: step_count_def pad_def)
  define mean where "mean = bop (/) sum_v ?div"
  have smean: "shape mean = [1, t, N, 1]"
    unfolding mean_def using shape_bop4_N1 [OF ssum sdiv] .
  have vmean: "val mean [0, i, n, 0]
      = windowed_row W cc len (\<lambda>j. val s [0, j, n, 0]) (masked_sum Xc Pc 0 n) pad i
          / max (step_count W cc pad i * real G) 1" if "i < t" "n < N" for i n
    unfolding mean_def
    using val_bop4_N1 [OF ssum sdiv _ that] vsum [OF that] vdiv [OF that(1)]
    by (simp add: windowed_row_def cum_row_def [abs_def])
  let ?Y = "squared_difference Xc mean"
  have sY: "shape ?Y = [1, t, N, G]" using shape_sqdiff4 [OF sx smean] .
  obtain sum_vv cat2 cpad2 where
    c2: "ComputeWindowedCumSum True 4 1 t N W ?ccount ?li ?lens ?Y Pc v ?cpads
           = Inr (sum_vv, cat2, cpad2)"
    and ssumv: "shape sum_vv = [1, t, N, 1]" and scat2: "shape cat2 = [1, W + t, N, 1]"
    and vcat2: "\<And>j n. j < W + t \<Longrightarrow> n < N \<Longrightarrow> val cat2 [0, j, n, 0]
          = concat_val cc len (\<lambda>j. val v [0, j, n, 0])
              (\<lambda>i. sum_upto (Suc i) (masked_sum ?Y Pc 0 n) + val v [0, cc - 1, n, 0]) j"
    and vsumv: "\<And>i n. i < t \<Longrightarrow> n < N \<Longrightarrow> val sum_vv [0, i, n, 0]
          = windowed_at W
              (concat_val cc len (\<lambda>j. val v [0, j, n, 0])
                (\<lambda>i. sum_upto (Suc i) (masked_sum ?Y Pc 0 n) + val v [0, cc - 1, n, 0]))
              (concat_pad cc len pad) (cc + i)"
    using ComputeWindowedCumSum_single [OF sY sp sv scpd vcpd vcc vli vln ccW lent]
    unfolding pad_def by blast
  have fr: "masked_sum ?Y Pc 0 n k = masked_sq Xc Pc (\<lambda>k. val mean [0, k, n, 0]) 0 n k"
    if "k < t" "n < N" for k n
    using masked_sum_sqdiff [OF sx smean _ that] by simp
  define var where "var = bop (/) sum_vv ?div"
  have svar: "shape var = [1, t, N, 1]"
    unfolding var_def using shape_bop4_N1 [OF ssumv sdiv] .
  have vvar: "val var [0, i, n, 0]
      = windowed_row W cc len (\<lambda>j. val v [0, j, n, 0])
          (masked_sq Xc Pc (\<lambda>k. val mean [0, k, n, 0]) 0 n) pad i
          / max (step_count W cc pad i * real G) 1" if "i < t" "n < N" for i n
  proof -
    have "val var [0, i, n, 0]
      = windowed_row W cc len (\<lambda>j. val v [0, j, n, 0]) (masked_sum ?Y Pc 0 n) pad i
          / max (step_count W cc pad i * real G) 1"
      unfolding var_def
      using val_bop4_N1 [OF ssumv sdiv _ that] vsumv [OF that] vdiv [OF that(1)]
      by (simp add: windowed_row_def cum_row_def [abs_def])
    then show ?thesis
      using windowed_row_cong [of t "masked_sum ?Y Pc 0 n"
          "masked_sq Xc Pc (\<lambda>k. val mean [0, k, n, 0]) 0 n" len] fr that(2) lent
      by simp
  qed
  define il where "il = row_length (concat_pad cc len pad) (W + t)"
  let ?ilt = "cast (LengthsFromPaddings (index_00 cpad)) float32"
  let ?ncc = "tmap (\<lambda>c. min c (real W)) ?ilt"
  let ?trim = "bop (-) ?ilt ?ncc"
  have sil: "shape (LengthsFromPaddings (index_00 cpad)) = [1]"
    using shape_LengthsFromPaddings [OF shape_index_00 [OF scpad]] .
  have vil: "val ?ilt [0] = real il"
    using val_LengthsFromPaddings [OF shape_index_00 [OF scpad], of 0]
      row_length_cong [of "W + t" "\<lambda>k. 0 < val cpad [0, k, 0, 0]" "concat_pad cc len pad"] vcpad
    by (simp add: cast_def val_index_00 il_def)
  have vncc: "val ?ncc [0] = real (min il W)" using vil by simp
  have vtrim: "val ?trim [0] = real (il - min il W)"
    using vil vncc sil by (simp add: val_bop bidx_def cast_def)
  have ilb: "il \<le> cc + len" unfolding il_def
    by (rule row_length_bound) (simp add: concat_pad_def)
  have le: "il - min il W + W \<le> W + t" using ilb ccW lent by (auto simp: min_def)
  obtain s' where t1: "TrimFromTheFront True 1 N cat1 ?trim ?ncc W = Inr s'"
    and ss': "shape s' = [1, W, N, 1]"
    and vs': "\<And>j n. j < W \<Longrightarrow> n < N \<Longrightarrow> val s' [0, j, n, 0] = val cat1 [0, il - min il W + j, n, 0]"
    using Trim_single [OF scat1 vtrim le, of ?ncc] by auto
  obtain v' where t2: "TrimFromTheFront True 1 N cat2 ?trim ?ncc W = Inr v'"
    and sv': "shape v' = [1, W, N, 1]"
    and vv': "\<And>j n. j < W \<Longrightarrow> n < N \<Longrightarrow> val v' [0, j, n, 0] = val cat2 [0, il - min il W + j, n, 0]"
    using Trim_single [OF scat2 vtrim le, of ?ncc] by auto
  let ?c' = "reshape ?ncc [1, 1, 1, 1]"
  have vc': "val ?c' [0, 0, 0, 0] = real (min il W)"
  proof -
    have "val ?c' [0, 0, 0, 0] = val ?ncc [0]"
      by (rule val_reshape_flat) (simp_all add: sil flat_index_def)
    then show ?thesis using vncc by simp
  qed
  have run: "StreamWindowedMoments_path True p Xc (Some Pc) (WindowedState s v c)
        = Inr (mean, var, WindowedState s' v' ?c')"
    unfolding StreamWindowedMoments_path_def
    using c1 c2 t1 t2
    by (simp add: pw r4 sx sp ss sv sc bindE_def check_def HasShape_def Let_def
        state_cached_count_def state_cached_sums_def state_cached_vars_def
        mean_def var_def)
  have vs'': "val s' [0, j, n, 0]
            = new_cached_row W cc len (\<lambda>j. val s [0, j, n, 0]) (masked_sum Xc Pc 0 n) pad t j"
    if "j < W" "n < N" for j n
  proof -
    have "il - min il W + j < W + t" using le that by simp
    then show ?thesis using vs' [OF that] vcat1 [of "il - min il W + j" n] that(2)
      by (simp add: new_cached_row_def new_count_def il_def cum_row_def [abs_def])
  qed
  have vv'': "val v' [0, j, n, 0]
            = new_cached_row W cc len (\<lambda>j. val v [0, j, n, 0])
                (masked_sq Xc Pc (\<lambda>k. val mean [0, k, n, 0]) 0 n) pad t j"
    if "j < W" "n < N" for j n
  proof -
    have "il - min il W + j < W + t" using le that by simp
    then have "val v' [0, j, n, 0]
            = new_cached_row W cc len (\<lambda>j. val v [0, j, n, 0]) (masked_sum ?Y Pc 0 n) pad t j"
      using vv' [OF that] vcat2 [of "il - min il W + j" n] that(2)
      by (simp add: new_cached_row_def new_count_def il_def cum_row_def [abs_def])
    then show ?thesis
      using new_cached_row_cong [of t "masked_sum ?Y Pc 0 n"
          "masked_sq Xc Pc (\<lambda>k. val mean [0, k, n, 0]) 0 n" len] fr that(2) lent
      by simp
  qed
  have sc': "shape ?c' = [1, 1, 1, 1]" by simp
  show ?thesis
  proof (intro exI conjI)
    show "StreamWindowedMoments_path True p Xc (Some Pc) (WindowedState s v c)
        = Inr (mean, var, WindowedState s' v' ?c')" by (rule run)
    show "shape mean = [1, t, N, 1]" by (rule smean)
    show "shape var = [1, t, N, 1]" by (rule svar)
    show "shape s' = [1, W, N, 1]" by (rule ss')
    show "shape v' = [1, W, N, 1]" by (rule sv')
    show "shape ?c' = [1, 1, 1, 1]" by (rule sc')
    show "\<forall>i n. i < t \<and> n < N \<longrightarrow>
          val mean [0, i, n, 0]
            = windowed_row W cc (row_length (padded Pc 0) t) (\<lambda>j. val s [0, j, n, 0])
                (masked_sum Xc Pc 0 n) (padded Pc 0) i
              / max (step_count W cc (padded Pc 0) i * real G) 1
        \<and> val var [0, i, n, 0]
            = windowed_row W cc (row_length (padded Pc 0) t) (\<lambda>j. val v [0, j, n, 0])
                (masked_sq Xc Pc (\<lambda>k. val mean [0, k, n, 0]) 0 n) (padded Pc 0) i
              / max (step_count W cc (padded Pc 0) i * real G) 1"
      using vmean vvar unfolding len_def pad_def by blast
    show "val ?c' [0, 0, 0, 0]
        = real (new_count W cc (row_length (padded Pc 0) t) (padded Pc 0) t)"
      using vc' unfolding new_count_def il_def len_def pad_def .
    show "\<forall>j n. j < W \<and> n < N \<longrightarrow>
          val s' [0, j, n, 0]
            = new_cached_row W cc (row_length (padded Pc 0) t) (\<lambda>j. val s [0, j, n, 0])
                (masked_sum Xc Pc 0 n) (padded Pc 0) t j
        \<and> val v' [0, j, n, 0]
            = new_cached_row W cc (row_length (padded Pc 0) t) (\<lambda>j. val v [0, j, n, 0])
                (masked_sq Xc Pc (\<lambda>k. val mean [0, k, n, 0]) 0 n) (padded Pc 0) t j"
      using vs'' vv'' unfolding len_def pad_def by blast
  qed
qed

section \<open>The layer entry points\<close>

lemma bindE_Inr: "bindE m f = Inr y \<longleftrightarrow> (\<exists>x. m = Inr x \<and> f x = Inr y)"
  by (cases m) (simp_all add: bindE_def)

lemma reshapeE_shape: "reshapeE x s = Inr y \<Longrightarrow> shape y = s"
  by (auto simp: reshapeE_def reshape_def split: if_splits)

lemma shape_CastToFPropDtype [simp]: "shape (CastToFPropDtype p x) = shape x"
  by (simp add: CastToFPropDtype_def cast_def)

lemma val_CastToFPropDtype: "p_dtype p \<noteq> int32 \<Longrightarrow> val (CastToFPropDtype p x) = val x"
  by (simp add: CastToFPropDtype_def cast_def)

lemma ApplyGammaBeta_shape:
  assumes ok: "ApplyGammaBeta p th z = Inr out"
    and s: "shape z \<noteq> []" "last (shape z) = nat (p_dim p)"
  shows "shape out = shape z"
proof -
  from ok obtain rg rb where out: "out = bop (+) (bop (*) z rg) rb"
    and srg: "shape rg = [nat (p_dim p)]" "shape rb = [nat (p_dim p)]"
    unfolding ApplyGammaBeta_def Let_def
    by (auto simp: bindE_Inr reshape_dim_def check_def cast_def reshape_def split: if_splits)
  show ?thesis using bshape_single [OF s] by (simp add: out srg)
qed

lemma FProp_result:
  assumes "FProp ev p th inputs pds = Inr (out, pd')"
  shows "pd' = map_option (CastToFPropDtype p) pds"
    and "testonly_skip_norm_layers ev \<and> out = CastToFPropDtype p inputs
       \<or> (rank inputs = 3 \<or> rank inputs = 4)
         \<and> (\<exists>z. shape z = shape inputs \<and> ApplyGammaBeta p th z = Inr out)"
proof -
  show "pd' = map_option (CastToFPropDtype p) pds"
    using assms unfolding FProp_def Let_def
    by (auto simp: bindE_Inr split: if_splits prod.splits)
  show "testonly_skip_norm_layers ev \<and> out = CastToFPropDtype p inputs
       \<or> (rank inputs = 3 \<or> rank inputs = 4)
         \<and> (\<exists>z. shape z = shape inputs \<and> ApplyGammaBeta p th z = Inr out)"
  proof (cases "testonly_skip_norm_layers ev")
    case True
    then show ?thesis using assms by (simp add: FProp_def Let_def)
  next
    case False
    from assms False obtain y z where r: "rank (CastToFPropDtype p inputs) = 3 \<or> rank (CastToFPropDtype p inputs) = 4"
      and z: "reshapeE y (shape (CastToFPropDtype p inputs)) = Inr z"
      and o: "ApplyGammaBeta p th z = Inr out"
      unfolding FProp_def Let_def
      by (auto simp: bindE_Inr check_def split: if_splits prod.splits)
    show ?thesis using r o reshapeE_shape [OF z] by (auto simp: rank_def)
  qed
qed

lemma StreamStep_result:
  assumes "StreamStep ev p th inputs pds st = Inr (out, pd', st')"
  shows "pd' = pds"
    and "testonly_skip_norm_layers ev \<and> out = inputs
       \<or> (rank inputs = 3 \<or> rank inputs = 4)
         \<and> (\<exists>z. shape z = shape inputs \<and> ApplyGammaBeta p th z = Inr out)"
proof -
  show "pd' = pds"
    using assms unfolding StreamStep_def Let_def
    by (auto simp: bindE_Inr split: if_splits prod.splits)
  show "testonly_skip_norm_layers ev \<and> out = inputs
       \<or> (rank inputs = 3 \<or> rank inputs = 4)
         \<and> (\<exists>z. shape z = shape inputs \<and> ApplyGammaBeta p th z = Inr out)"
  proof (cases "testonly_skip_norm_layers ev")
    case True
    then show ?thesis using assms by (simp add: StreamStep_def Let_def)
  next
    case False
    from assms False obtain y z where r: "rank inputs = 3 \<or> rank inputs = 4"
      and z: "reshapeE y (shape inputs) = Inr z"
      and o: "ApplyGammaBeta p th z = Inr out"
      unfolding StreamStep_def Let_def
      by (auto simp: bindE_Inr check_def split: if_splits prod.splits)
    show ?thesis using r o reshapeE_shape [OF z] by auto
  qed
qed

lemma frame_shape:
  assumes "(rank inputs = 3 \<or> rank inputs = 4)
         \<and> (\<exists>z. shape z = shape inputs \<and> ApplyGammaBeta p th z = Inr out)"
    and "last (shape inputs) = nat (p_dim p)"
  shows "shape out = shape inputs"
proof -
  have r: "shape inputs \<noteq> []" using assms(1) by (auto simp: rank_def)
  from assms obtain z where z: "shape z = shape inputs" "ApplyGammaBeta p th z = Inr out"
    by blast
  show ?thesis using ApplyGammaBeta_shape [OF z(2)] z(1) r assms(2) by simp
qed

lemma batch_count_pos: "1 \<le> batch_count w X P b t"
  by (simp add: batch_count_def)

lemma batch_variance_nonneg: "0 \<le> batch_variance w X P b n t"
proof -
  have "0 \<le> window w P b (\<lambda>k. sum_upto k (masked_sq X P (batch_mean w X P b n) b n)) t"
    by (rule window_nonneg [OF masked_sq_nonneg])
  moreover have "0 < batch_count w X P b t" using batch_count_pos [of w X P b t] by simp
  ultimately show ?thesis by (simp add: batch_variance_def)
qed

lemma Normalize4_ok:
  assumes sx: "shape x = [B, T, N, G]" and sm: "shape m = [B, T, N, 1]"
    and sv: "shape v = [B, T, N, 1]" and cum: "p_cumulative p"
    and nn: "\<And>b t n. b < B \<Longrightarrow> t < T \<Longrightarrow> n < N \<Longrightarrow> 0 \<le> val v [b, t, n, 0]"
  shows "\<exists>y. Normalize p x m v = Inr y \<and> shape y = [B, T, N, G]"
proof -
  have la: "list_all (\<lambda>i. 0 \<le> val v i) (indices (shape v))"
    unfolding list_all_indices sv using nn by (auto simp: valid_index4)
  have bs: "bshape (bshape [B, T, N, G] [B, T, N, Suc 0]) [B, T, N, Suc 0] = [B, T, N, G]"
    by (auto simp: bshape_def align_def)
  show ?thesis
    unfolding Normalize_def Let_def
    using la by (simp add: rank_def sx sm sv cum HasShape_def bindE_def check_def bs)
qed

lemma ApplyGammaBeta_ok:
  assumes sg: "int (prod_list (shape (gamma th))) = p_dim p"
    and sb: "int (prod_list (shape (beta th))) = p_dim p"
    and s: "shape z \<noteq> []" "last (shape z) = nat (p_dim p)"
  shows "\<exists>out. ApplyGammaBeta p th z = Inr out \<and> shape out = shape z"
proof -
  have b: "broadcastable (shape z) [nat (p_dim p)]"
  proof -
    have l: "max (length (shape z)) (Suc 0) = length (shape z)"
      using s(1) by (cases "shape z") simp_all
    have e: "i = length (shape z) - Suc 0"
      if "\<not> i < length (shape z) - Suc 0" "i < length (shape z)" for i
      using that by simp
    show ?thesis
      using s e
      by (auto simp: broadcastable_def align_def Let_def l list_all2_conv_all_nth nth_append
          last_conv_nth)
  qed
  then obtain out where out: "ApplyGammaBeta p th z = Inr out"
    unfolding ApplyGammaBeta_def Let_def
    by (simp add: reshape_dim_def sg sb bindE_def check_def)
  show ?thesis using out ApplyGammaBeta_shape [OF out s] by blast
qed

lemma zero_state_cumulative:
  assumes ng: "num_groups p = Inr (int N)" and cum: "p_cumulative p"
    and ws: "\<not> 1 < p_window_size p"
  shows "zero_state p B
    = Inr (CumulativeState (zeros [B, 1, N, 1] (p_dtype p)) (zeros [B, 1, 1, 1] (p_dtype p))
             (zeros [B, 1, N, 1] (p_dtype p)))"
  using cum ws by (simp add: zero_state_def ng bindE_def Let_def)

lemma zero_state_inv:
  assumes ng: "num_groups p = Inr (int N)" and cum: "p_cumulative p"
    and ws: "\<not> 1 < p_window_size p" and sx: "shape X = [B, T, N, G]"
    and st: "zero_state p B = Inr st"
  shows "stream_inv X P 0 st"
proof -
  have "st = CumulativeState (zeros [B, 1, N, 1] (p_dtype p)) (zeros [B, 1, 1, 1] (p_dtype p))
             (zeros [B, 1, N, 1] (p_dtype p))"
    using st zero_state_cumulative [OF ng cum ws, of B] by simp
  then show ?thesis
    by (simp add: stream_inv_def sx zeros_def full_def valid_count_def sum_upto_def)
qed

lemma chunk_of_self: "chunk_of X X 0"
  by (simp add: chunk_of_def)

lemma FProp_run:
  assumes ng: "num_groups p = Inr (int N)" and gs: "group_size p = Inr (int G)"
    and sx: "shape inputs = [B, T, N * G]" and sp: "shape pd = [B, T]"
    and dim: "p_dim p = int (N * G)"
    and cum: "p_cumulative p" and ws: "0 \<le> p_window_size p"
    and skip: "\<not> testonly_skip_norm_layers ev"
    and crs: "\<not> (use_tpu ev \<and> p_enable_cross_replica_sum_on_tpu p)"
    and sg: "int (prod_list (shape (gamma th))) = p_dim p"
    and sb: "int (prod_list (shape (beta th))) = p_dim p"
  shows "\<exists>out. FProp ev p th inputs (Some pd) = Inr (out, Some (CastToFPropDtype p pd))
    \<and> shape out = shape inputs"
proof -
  define X where "X = CastToFPropDtype p inputs"
  define Pd where "Pd = CastToFPropDtype p pd"
  define Xe where "Xe = reshape X [B, T, N, G]"
  define Pe where "Pe = reshape Pd [B, T, 1, 1]"
  have sX: "shape X = [B, T, N * G]" and sP: "shape Pd = [B, T]"
    by (simp_all add: X_def Pd_def sx sp)
  have rX: "rank X = 3" by (simp add: rank_def sX)
  have ex: "expand_groups X (int N) (int G) = Inr Xe"
    by (simp add: expand_groups_def reshapeE_def bindE_def check_def sX Xe_def)
  have ep: "reshapeE Pd (B # T # replicate 2 (Suc 0)) = Inr Pe"
    by (simp add: reshapeE_def sP Pe_def numeral_2_eq_2)
  have sXe: "shape Xe = [B, T, N, G]" and sPe: "shape Pe = [B, T, 1, 1]"
    by (simp_all add: Xe_def Pe_def)
  have w: "Some (p_window_size p) = None \<or> (\<exists>W. Some (p_window_size p) = Some (int W))"
    using ws by (auto intro: exI [of _ "nat (p_window_size p)"])
  from ComputeMoments4 [OF sXe sPe w crs] obtain M V where
    cm: "ComputeMoments ev Xe Pe [3] (Some 1) (p_enable_cross_replica_sum_on_tpu p) True
           (Some (p_window_size p)) = Inr (M, V)"
    and sM: "shape M = [B, T, N, 1]" and sV: "shape V = [B, T, N, 1]"
    and vV: "\<And>b t n. b < B \<Longrightarrow> t < T \<Longrightarrow> n < N \<Longrightarrow>
       val V [b, t, n, 0] = batch_variance (clamped_window (Some (p_window_size p)) T) Xe Pe b n t"
    by blast
  from Normalize4_ok [OF sXe sM sV cum] vV batch_variance_nonneg obtain y where
    y: "Normalize p Xe M V = Inr y" and sy: "shape y = [B, T, N, G]"
    by metis
  define z where "z = reshape y [B, T, N * G]"
  have rz: "reshapeE y [B, T, N * G] = Inr z"
    by (simp add: reshapeE_def sy z_def)
  have nd: "nat (p_dim p) = N * G" unfolding dim by (rule nat_int)
  have sz: "shape z \<noteq> []" "last (shape z) = nat (p_dim p)"
    by (simp_all add: z_def nd)
  from ApplyGammaBeta_ok [OF sg sb sz] obtain out where
    out: "ApplyGammaBeta p th z = Inr out" and so: "shape out = shape z" by blast
  have dims: "drop 2 (take 2 [0..<4]) @ drop 3 [0..<4] = [3::nat]"
    by (simp add: upt_rec)
  have "FProp ev p th inputs (Some pd) = Inr (out, Some (CastToFPropDtype p pd))"
    unfolding FProp_def Let_def X_def [symmetric]
    using cm ep
    by (simp add: skip rX ng gs ex cum sX dims bindE_def check_def
        Pd_def [symmetric] y rz out)
  then show ?thesis using so by (simp add: z_def sx)
qed

lemma StreamStep_run:
  assumes ng: "num_groups p = Inr (int N)" and gs: "group_size p = Inr (int G)"
    and sx: "shape inputs = [B, T, N * G]" and sp: "shape pd = [B, T]"
    and dim: "p_dim p = int (N * G)"
    and cum: "p_cumulative p" and ws: "p_window_size p = 0"
    and skip: "\<not> testonly_skip_norm_layers ev"
    and sg: "int (prod_list (shape (gamma th))) = p_dim p"
    and sb: "int (prod_list (shape (beta th))) = p_dim p"
    and t: "0 < T"
    and inv: "stream_inv (reshape inputs [B, T, N, G]) (reshape pd [B, T, 1, 1]) 0 st"
  shows "\<exists>out st'. StreamStep ev p th inputs (Some pd) st = Inr (out, Some pd, st')
    \<and> shape out = shape inputs"
proof -
  define Xe where "Xe = reshape inputs [B, T, N, G]"
  define Pe where "Pe = reshape pd [B, T, 1, 1]"
  have rX: "rank inputs = 3" by (simp add: rank_def sx)
  have ex: "expand_groups inputs (int N) (int G) = Inr Xe"
    by (simp add: expand_groups_def reshapeE_def bindE_def check_def sx Xe_def)
  have ep: "reshapeE pd (B # T # replicate 2 (Suc 0)) = Inr Pe"
    by (simp add: reshapeE_def sp Pe_def numeral_2_eq_2)
  have sXe: "shape Xe = [B, T, N, G]" and sPe: "shape Pe = [B, T, 1, 1]"
    by (simp_all add: Xe_def Pe_def)
  have inv': "stream_inv Xe Pe 0 st" using inv by (simp add: Xe_def Pe_def)
  from StreamMoments4 [OF sXe sXe sPe chunk_of_self chunk_of_self t inv'] obtain M V st' where
    sm: "StreamMoments Xe (Some Pe) st = Inr (M, V, st')"
    and sM: "shape M = [B, T, N, 1]" and sV: "shape V = [B, T, N, 1]"
    and vV: "\<And>b i n. b < B \<Longrightarrow> i < T \<Longrightarrow> n < N \<Longrightarrow>
       val V [b, i, n, 0] = batch_variance None Xe Pe b n (0 + i)"
    by blast
  from Normalize4_ok [OF sXe sM sV cum] vV batch_variance_nonneg obtain y where
    y: "Normalize p Xe M V = Inr y" and sy: "shape y = [B, T, N, G]"
    by metis
  define z where "z = reshape y [B, T, N * G]"
  have rz: "reshapeE y [B, T, N * G] = Inr z"
    by (simp add: reshapeE_def sy z_def)
  have nd: "nat (p_dim p) = N * G" unfolding dim by (rule nat_int)
  have sz: "shape z \<noteq> []" "last (shape z) = nat (p_dim p)"
    by (simp_all add: z_def nd)
  from ApplyGammaBeta_ok [OF sg sb sz] obtain out where
    out: "ApplyGammaBeta p th z = Inr out" and so: "shape out = shape z" by blast
  have "StreamStep ev p th inputs (Some pd) st = Inr (out, Some pd, st')"
    unfolding StreamStep_def Let_def
    using ep sm
    by (simp add: skip rX ng gs ex cum ws sx bindE_def check_def y rz out)
  then show ?thesis using so by (auto simp: z_def sx)
qed

lemma ex_p_groups:
  "num_groups ex_p = Inr (int 1)" "group_size ex_p = Inr (int 1)"
  "num_groups ex_p_bf = Inr (int 1)" "group_size ex_p_bf = Inr (int 1)"
  by (simp_all add: num_groups_def group_size_def ex_p_bf_def ex_p_def Params_def bindE_def)

text \<open>
  C10, as the claim states it, fails for \<^verbatim>\<open>FProp\<close>: the paddings that \<^verbatim>\<open>FProp\<close> returns
  are the ones that \<^verbatim>\<open>_CastToFPropDtype\<close> made from the argument at the start of the
  method. For a layer with the element type \<open>bfloat16\<close> and \<open>float32\<close> paddings the
  call succeeds and returns the paddings as a \<open>bfloat16\<close> tensor, which is not the
  argument.
\<close>

theorem FProp_paddings_counterexample:
  "fprop_paddings (FProp local_env ex_p_bf ex_th ex_x (Some ex_pd))
     = Inr (Some (cast ex_pd bfloat16))
   \<and> cast ex_pd bfloat16 \<noteq> ex_pd"
proof -
  have c: "CastToFPropDtype ex_p_bf ex_pd = cast ex_pd bfloat16"
    by (simp add: CastToFPropDtype_def ex_p_bf_def ex_pd_def tensor_of_list_def)
  from FProp_run [of ex_p_bf 1 1 ex_x 1 2 ex_pd local_env ex_th, OF ex_p_groups(3,4)]
  obtain out where "FProp local_env ex_p_bf ex_th ex_x (Some ex_pd)
      = Inr (out, Some (CastToFPropDtype ex_p_bf ex_pd))"
    by (auto simp: ex_x_def ex_pd_def tensor_of_list_def ex_p_bf_def ex_p_def Params_def
        local_env_def ex_th_def)
  then have "fprop_paddings (FProp local_env ex_p_bf ex_th ex_x (Some ex_pd))
     = Inr (Some (cast ex_pd bfloat16))"
    by (simp add: fprop_paddings_def c)
  moreover have "dtype (cast ex_pd bfloat16) \<noteq> dtype ex_pd"
    by (simp add: cast_def ex_pd_def tensor_of_list_def)
  ultimately show ?thesis by auto
qed

text \<open>
  C10, amended. For inputs whose last axis has \<open>dim\<close> entries: whenever \<^verbatim>\<open>FProp\<close>,
  called with paddings, returns, the paddings it returns are the argument as
  \<^verbatim>\<open>_CastToFPropDtype\<close> gives it, which has the shape of the argument and, unless
  the layer's element type is \<open>int32\<close>, its values; whenever \<^verbatim>\<open>StreamStep\<close> returns,
  it returns the paddings argument itself; and in both cases the output has the
  shape of the inputs. Both are functions of their arguments, so the tensors
  passed in stay what they were.
\<close>

theorem FProp_StreamStep_frame:
  assumes "last (shape inputs) = nat (p_dim p)"
  shows "(\<forall>out pd'. FProp ev p th inputs (Some pd) = Inr (out, pd') \<longrightarrow>
            pd' = Some (CastToFPropDtype p pd) \<and> shape out = shape inputs)
    \<and> shape (CastToFPropDtype p pd) = shape pd
    \<and> (p_dtype p \<noteq> int32 \<longrightarrow> val (CastToFPropDtype p pd) = val pd)
    \<and> (\<forall>out pd' st'. StreamStep ev p th inputs pds st = Inr (out, pd', st') \<longrightarrow>
            pd' = pds \<and> shape out = shape inputs)"
proof (intro conjI allI impI)
  fix out pd' assume a: "FProp ev p th inputs (Some pd) = Inr (out, pd')"
  show "pd' = Some (CastToFPropDtype p pd)" using FProp_result(1) [OF a] by simp
  show "shape out = shape inputs"
    using FProp_result(2) [OF a] frame_shape [OF _ assms, of th out] by auto
next
  fix out pd' st' assume a: "StreamStep ev p th inputs pds st = Inr (out, pd', st')"
  show "pd' = pds" using StreamStep_result(1) [OF a] .
  show "shape out = shape inputs"
    using StreamStep_result(2) [OF a] frame_shape [OF _ assms, of th out] by auto
qed (simp_all add: val_CastToFPropDtype)

theorem FProp_StreamStep_frame_witness:
  "last (shape ex_x) = nat (p_dim ex_p) \<and> p_dtype ex_p \<noteq> int32
   \<and> fprop_paddings (FProp local_env ex_p ex_th ex_x (Some ex_pd))
       = Inr (Some (CastToFPropDtype ex_p ex_pd))
   \<and> output_shape (FProp local_env ex_p ex_th ex_x (Some ex_pd)) = Inr (shape ex_x)
   \<and> shape (CastToFPropDtype ex_p ex_pd) = shape ex_pd
   \<and> val (CastToFPropDtype ex_p ex_pd) = val ex_pd
   \<and> step_paddings (bindE (zero_state ex_p 1) (StreamStep local_env ex_p ex_th ex_x (Some ex_pd)))
       = Inr (Some ex_pd)
   \<and> output_shape (bindE (zero_state ex_p 1) (StreamStep local_env ex_p ex_th ex_x (Some ex_pd)))
       = Inr (shape ex_x)"
proof -
  have h: "last (shape ex_x) = nat (p_dim ex_p)" "p_dtype ex_p \<noteq> int32"
    by (simp_all add: ex_x_def tensor_of_list_def ex_p_def Params_def)
  have pre: "shape ex_x = [1, 2, 1 * 1]" "shape ex_pd = [1, 2]" "p_dim ex_p = int (1 * 1)"
    "p_cumulative ex_p" "p_window_size ex_p = 0" "\<not> testonly_skip_norm_layers local_env"
    "\<not> (use_tpu local_env \<and> p_enable_cross_replica_sum_on_tpu ex_p)"
    "int (prod_list (shape (gamma ex_th))) = p_dim ex_p"
    "int (prod_list (shape (beta ex_th))) = p_dim ex_p"
    by (simp_all add: ex_x_def ex_pd_def tensor_of_list_def ex_p_def Params_def
        local_env_def ex_th_def)
  from FProp_run [OF ex_p_groups(1,2) pre(1,2,3,4) _ pre(6,7,8,9)] pre(5)
  obtain out where f: "FProp local_env ex_p ex_th ex_x (Some ex_pd)
      = Inr (out, Some (CastToFPropDtype ex_p ex_pd))"
    by auto
  obtain st0 where z: "zero_state ex_p 1 = Inr st0"
    using zero_state_cumulative [OF ex_p_groups(1) pre(4), of 1] pre(5) by simp
  have inv: "stream_inv (reshape ex_x [1, 2, 1, 1]) (reshape ex_pd [1, 2, 1, 1]) 0 st0"
    using zero_state_inv [OF ex_p_groups(1) pre(4) _ _ z, of "reshape ex_x [1, 2, 1, 1]" 2 1]
      pre(5) by simp
  from StreamStep_run [OF ex_p_groups(1,2) pre(1,2,3,4,5,6,8,9) _ inv]
  obtain out2 st' where s: "StreamStep local_env ex_p ex_th ex_x (Some ex_pd) st0
      = Inr (out2, Some ex_pd, st')"
    by auto
  show ?thesis
    using FProp_StreamStep_frame [OF h(1), of local_env ex_th ex_pd "Some ex_pd" st0] h f s z
    by (simp add: fprop_paddings_def step_paddings_def output_shape_def bindE_def)
qed

section \<open>The windowed streaming step for a batch\<close>

lemma shape_reverse_sequence [simp]: "shape (reverse_sequence x l) = shape x"
  by (simp add: reverse_sequence_def)

lemma val_reverse_sequence4:
  "val l [b] = real k \<Longrightarrow>
   val (reverse_sequence x l) [b, j, n, m]
     = (if j < k then val x [b, k - 1 - j, n, m] else val x [b, j, n, m])"
  by (simp add: reverse_sequence_def Let_def)

lemma val_reverse_sequence2:
  "val l [b] = real k \<Longrightarrow>
   val (reverse_sequence x l) [b, j]
     = (if j < k then val x [b, k - 1 - j] else val x [b, j])"
  by (simp add: reverse_sequence_def Let_def)

lemma shape_gather_nd: "shape x = [B, W, N, K] \<Longrightarrow> shape (gather_nd x li) = [B, N, K]"
  by (simp add: gather_nd_def)

lemma val_gather_nd:
  "val li [b, 0] = real k \<Longrightarrow> val (gather_nd x li) [b, n, m] = val x [b, k, n, m]"
  by (simp add: gather_nd_def)

lemma val_bop1:
  assumes "shape x = [B]" "shape y = [B]" "b < B"
  shows "val (bop f x y) [b] = f (val x [b]) (val y [b])"
  using assms by (auto simp: val_bop bidx_def)

lemma shape_bop1:
  assumes "shape x = [B]" "shape y = [B]"
  shows "shape (bop f x y) = [B]"
  using assms by (auto simp: bshape_def align_def)

lemma row_length_threshold: "row_length (\<lambda>k. c \<le> k) T = min c T"
proof (induction T)
  case 0
  show ?case by (simp add: row_length_def)
next
  case (Suc T)
  show ?case
  proof (cases "c \<le> T")
    case True
    then have "row_length (\<lambda>k. c \<le> k) (Suc T) = row_length (\<lambda>k. c \<le> k) T"
      by (simp add: row_length_def)
    then show ?thesis using Suc True by simp
  next
    case False
    then show ?thesis by (simp add: row_length_def)
  qed
qed

lemma gather_last4:
  assumes sca: "shape cached = [B, W, N, 1]" and vli: "val li [b, 0] = real k"
    and b: "b < B" and n: "n < N"
  shows "val (reshape (gather_nd cached li) [B, 1, N, 1]) [b, 0, n, 0] = val cached [b, k, n, 0]"
proof -
  have "val (reshape (gather_nd cached li) [B, 1, N, 1]) [b, 0, n, 0]
      = val (gather_nd cached li) [b, n, 0]"
    by (rule val_reshape_flat)
      (use b n in \<open>simp_all add: shape_gather_nd [OF sca] flat_index_def\<close>)
  then show ?thesis using val_gather_nd [OF vli] by simp
qed

lemma ConcatenatePaddedSequences_spec:
  assumes s0: "shape x0 = [B, W, N, 1]" and s1: "shape x1 = [B, t, N, 1]"
    and sp0: "shape p0 = [B, W]" and sp1: "shape p1 = [B, t]"
    and vp0: "\<And>b j. b < B \<Longrightarrow> val p0 [b, j] = (if j < cc b then 0 else 1)"
    and ccW: "\<And>b. b < B \<Longrightarrow> cc b \<le> W"
  shows "shape (fst (ConcatenatePaddedSequences x0 x1 p0 p1)) = [B, W + t, N, 1]"
    and "shape (snd (ConcatenatePaddedSequences x0 x1 p0 p1)) = [B, W + t]"
    and "\<And>b j n. b < B \<Longrightarrow> j < W + t \<Longrightarrow> n < N \<Longrightarrow>
       val (fst (ConcatenatePaddedSequences x0 x1 p0 p1)) [b, j, n, 0]
         = gconcat_val (cc b) t (\<lambda>j. val x0 [b, j, n, 0]) (\<lambda>i. val x1 [b, i, n, 0]) j"
    and "\<And>b j. b < B \<Longrightarrow> j < W + t \<Longrightarrow>
       (val (snd (ConcatenatePaddedSequences x0 x1 p0 p1)) [b, j] > 0)
         = gconcat_pad W (cc b) (row_length (\<lambda>k. val p1 [b, k] > 0) t) (\<lambda>k. val p1 [b, k] > 0) j"
proof -
  define d0 where "d0 = repeat (real W) B"
  define d1 where "d1 = repeat (real t) B"
  define l0 where "l0 = LengthsFromPaddings p0"
  define l1 where "l1 = LengthsFromPaddings p1"
  define r0 where "r0 = reverse_sequence x0 l0"
  define r1 where "r1 = reverse_sequence x1 d1"
  define rc where "rc = concat2 (Suc 0) r1 r0"
  define ci where "ci = reverse_sequence rc (bop (+) l0 d1)"
  define rp0 where "rp0 = reverse_sequence p0 d0"
  define rcp where "rcp = concat2 (Suc 0) rp0 p1"
  define cp where "cp = reverse_sequence rcp (bop (+) d0 l1)"
  have run: "ConcatenatePaddedSequences x0 x1 p0 p1 = (ci, cp)"
    unfolding ConcatenatePaddedSequences_def Let_def
    by (simp add: sp0 sp1 tf_concat_def ci_def cp_def rc_def rcp_def r0_def r1_def rp0_def
        l0_def l1_def d0_def d1_def)
  have sd: "shape d0 = [B]" "shape d1 = [B]" by (simp_all add: d0_def d1_def repeat_def)
  have vd: "val d0 [b] = real W" "val d1 [b] = real t" for b
    by (simp_all add: d0_def d1_def repeat_def)
  have sl: "shape l0 = [B]" "shape l1 = [B]"
    using shape_LengthsFromPaddings [OF sp0] shape_LengthsFromPaddings [OF sp1]
    by (simp_all add: l0_def l1_def)
  have vl0: "val l0 [b] = real (cc b)" if "b < B" for b
  proof -
    have "row_length (\<lambda>k. val p0 [b, k] > 0) W = row_length (\<lambda>k. cc b \<le> k) W"
      by (rule row_length_cong) (simp add: vp0 [OF that])
    then show ?thesis
      using val_LengthsFromPaddings [OF sp0, of b] ccW [OF that]
      by (simp add: l0_def row_length_threshold)
  qed
  define len where "len = (\<lambda>b. row_length (\<lambda>k. val p1 [b, k] > 0) t)"
  have vl1: "val l1 [b] = real (len b)" for b
    using val_LengthsFromPaddings [OF sp1, of b] by (simp add: l1_def len_def)
  have lent: "len b \<le> t" for b unfolding len_def by (rule row_length_le)
  have sr1: "shape r1 = [B, t, N, 1]" and sr0: "shape r0 = [B, W, N, 1]"
    by (simp_all add: r1_def r0_def s0 s1)
  have src: "shape rc = [B, t + W, N, 1]"
    by (simp add: rc_def shape_concat2 sr1 sr0)
  have srp0: "shape rp0 = [B, W]" by (simp add: rp0_def sp0)
  have srcp: "shape rcp = [B, W + t]"
    by (simp add: rcp_def shape_concat2 srp0 sp1)
  show "shape (fst (ConcatenatePaddedSequences x0 x1 p0 p1)) = [B, W + t, N, 1]"
    by (simp add: run ci_def src add.commute)
  show "shape (snd (ConcatenatePaddedSequences x0 x1 p0 p1)) = [B, W + t]"
    by (simp add: run cp_def srcp)
  show "val (fst (ConcatenatePaddedSequences x0 x1 p0 p1)) [b, j, n, 0]
         = gconcat_val (cc b) t (\<lambda>j. val x0 [b, j, n, 0]) (\<lambda>i. val x1 [b, i, n, 0]) j"
    if "b < B" "j < W + t" "n < N" for b j n
  proof -
    have tot: "val (bop (+) l0 d1) [b] = real (cc b + t)"
      using val_bop1 [OF sl(1) sd(2) that(1)] vl0 [OF that(1)] vd(2) by simp
    have vr1: "val r1 [b, i, n, 0] = (if i < t then val x1 [b, t - 1 - i, n, 0] else val x1 [b, i, n, 0])"
      for i unfolding r1_def using val_reverse_sequence4 [OF vd(2)] .
    have vr0: "val r0 [b, i, n, 0]
        = (if i < cc b then val x0 [b, cc b - 1 - i, n, 0] else val x0 [b, i, n, 0])"
      for i unfolding r0_def using val_reverse_sequence4 [OF vl0 [OF that(1)]] .
    have vrc: "val rc [b, i, n, 0] = (if i < t then val r1 [b, i, n, 0] else val r0 [b, i - t, n, 0])"
      for i unfolding rc_def using val_concat2_4 [OF sr1] .
    have "val ci [b, j, n, 0]
        = (if j < cc b + t then val rc [b, cc b + t - 1 - j, n, 0] else val rc [b, j, n, 0])"
      unfolding ci_def using val_reverse_sequence4 [OF tot] .
    also have "\<dots> = gconcat_val (cc b) t (\<lambda>j. val x0 [b, j, n, 0]) (\<lambda>i. val x1 [b, i, n, 0]) j"
    proof (cases "j < cc b")
      case True
      then have a: "\<not> cc b + t - 1 - j < t" "cc b + t - 1 - j - t = cc b - 1 - j"
        "cc b - 1 - j < cc b" "cc b - 1 - (cc b - 1 - j) = j" by auto
      show ?thesis using True a by (simp add: vrc vr0 gconcat_val_def)
    next
      case False
      show ?thesis
      proof (cases "j < cc b + t")
        case True
        then have a: "cc b + t - 1 - j < t" "t - 1 - (cc b + t - 1 - j) = j - cc b"
          using False by auto
        show ?thesis using True False a by (simp add: vrc vr1 gconcat_val_def)
      next
        case False
        then have a: "\<not> j < t" "\<not> j - t < cc b" "\<not> j < cc b" by auto
        show ?thesis using False a by (simp add: vrc vr0 gconcat_val_def)
      qed
    qed
    finally show ?thesis by (simp add: run)
  qed
  show "(val (snd (ConcatenatePaddedSequences x0 x1 p0 p1)) [b, j] > 0)
         = gconcat_pad W (cc b) (row_length (\<lambda>k. val p1 [b, k] > 0) t) (\<lambda>k. val p1 [b, k] > 0) j"
    if "b < B" "j < W + t" for b j
  proof -
    have tot: "val (bop (+) d0 l1) [b] = real (W + len b)"
      using val_bop1 [OF sd(1) sl(2) that(1)] vl1 vd(1) by simp
    have vrp0: "val rp0 [b, i] = (if i < W then val p0 [b, W - 1 - i] else val p0 [b, i])" for i
      unfolding rp0_def using val_reverse_sequence2 [OF vd(1)] .
    have vrcp: "val rcp [b, i] = (if i < W then val rp0 [b, i] else val p1 [b, i - W])" for i
      unfolding rcp_def using val_concat2_2 [OF srp0] .
    have "val cp [b, j]
        = (if j < W + len b then val rcp [b, W + len b - 1 - j] else val rcp [b, j])"
      unfolding cp_def using val_reverse_sequence2 [OF tot] .
    then have "(val cp [b, j] > 0)
        = gconcat_pad W (cc b) (len b) (\<lambda>k. val p1 [b, k] > 0) j"
    proof (cases "j < len b")
      case True
      then have a: "\<not> W + len b - 1 - j < W" "W + len b - 1 - j - W = len b - 1 - j"
        "j < W + len b" by auto
      show ?thesis using True a \<open>val cp [b, j] = _\<close> by (simp add: vrcp gconcat_pad_def)
    next
      case False
      show ?thesis
      proof (cases "j < W + len b")
        case True
        then have a: "W + len b - 1 - j < W" "W - 1 - (W + len b - 1 - j) = j - len b"
          using False by auto
        show ?thesis using True False a \<open>val cp [b, j] = _\<close>
          by (simp add: vrcp vrp0 gconcat_pad_def vp0 [OF that(1)] not_less)
      next
        case False
        then have a: "\<not> j < W" "\<not> j < len b" by auto
        show ?thesis using False a \<open>val cp [b, j] = _\<close> by (simp add: vrcp gconcat_pad_def)
      qed
    qed
    then show ?thesis by (simp add: run len_def)
  qed
qed

lemma reshape_pad4:
  assumes sp: "shape q = [B, L]" and b: "b < B" and j: "j < L"
  shows "val (reshape q [B, L, 1, 1]) [b, j, 0, 0] = val q [b, j]"
  by (rule val_reshape_flat) (use b j in \<open>simp_all add: sp flat_index_def\<close>)

lemma Trim_general:
  assumes sx: "shape x = [B, L, N, 1]"
    and st: "shape trim = [B]" and sk: "shape keep = [B]"
    and vt: "\<And>b. b < B \<Longrightarrow> val trim [b] = real (a b)"
    and vk: "\<And>b. b < B \<Longrightarrow> val keep [b] = real (k b)"
    and le: "out \<le> L" and kl: "\<And>b. b < B \<Longrightarrow> a b + k b \<le> L"
  shows "\<exists>y. TrimFromTheFront False B N x trim keep out = Inr y \<and> shape y = [B, out, N, 1]
    \<and> (\<forall>b i n. b < B \<and> i < out \<and> n < N \<longrightarrow>
          val y [b, i, n, 0] = (if i < k b then val x [b, a b + i, n, 0] else 0))"
proof -
  define tr where "tr = cast trim int32"
  define ke where "ke = cast keep int32"
  define tot where "tot = bop (+) tr ke"
  define rx where "rx = reverse_sequence x tot"
  define tp where "tp = reshape (PaddingsFromLengths ke L) [B, L, 1, 1]"
  define trx where "trx = ApplyPadding tp rx"
  define tx where "tx = reverse_sequence trx ke"
  define y where "y = slice_axis tx (Suc 0) 0 out"
  have str: "shape tr = [B]" and ske: "shape ke = [B]" by (simp_all add: tr_def ke_def st sk)
  have vtr: "val tr [b] = real (a b)" if "b < B" for b
    unfolding tr_def using val_cast_int32_nat [OF vt [OF that]] .
  have vke: "val ke [b] = real (k b)" if "b < B" for b
    unfolding ke_def using val_cast_int32_nat [OF vk [OF that]] .
  have vtot: "val tot [b] = real (a b + k b)" if "b < B" for b
    unfolding tot_def using val_bop1 [OF str ske that] vtr [OF that] vke [OF that] by simp
  have spl: "shape (PaddingsFromLengths ke L) = [B, L]"
    using shape_PaddingsFromLengths [OF ske] .
  have stp: "shape tp = [B, L, 1, 1]" by (simp add: tp_def)
  have srx: "shape rx = [B, L, N, 1]" by (simp add: rx_def sx)
  have strx: "shape trx = [B, L, N, 1]" unfolding trx_def using shape_AP4 [OF stp srx] .
  have stx: "shape tx = [B, L, N, 1]" by (simp add: tx_def strx)
  have sy: "shape y = [B, out, N, 1]"
    unfolding y_def using shape_slice_axis1 [OF stx, of 0 out] le by simp
  have run: "TrimFromTheFront False B N x trim keep out = Inr y"
    unfolding TrimFromTheFront_def Let_def
    by (simp add: sx spl [unfolded ke_def] reshapeE_def bindE_def y_def tx_def trx_def tp_def rx_def tot_def
        tr_def ke_def)
  have vy: "val y [b, i, n, 0] = (if i < k b then val x [b, a b + i, n, 0] else 0)"
    if "b < B" "i < out" "n < N" for b i n
  proof -
    have iL: "i < L" using that(2) le by simp
    have vtp: "(val tp [b, j, 0, 0] > 0) = (k b \<le> j)" if "j < L" for j
      unfolding tp_def
      using reshape_pad4 [OF spl \<open>b < B\<close> that] val_PaddingsFromLengths [OF vke [OF \<open>b < B\<close>], of L j]
      by simp
    have vtrx: "val trx [b, j, n, 0] = (if k b \<le> j then 0 else val rx [b, j, n, 0])"
      if "j < L" for j
      unfolding trx_def
      using val_AP4 [OF stp srx \<open>b < B\<close> that \<open>n < N\<close>, of 0] vtp [OF that] by simp
    have vrx: "val rx [b, j, n, 0]
        = (if j < a b + k b then val x [b, a b + k b - 1 - j, n, 0] else val x [b, j, n, 0])"
      for j unfolding rx_def using val_reverse_sequence4 [OF vtot [OF \<open>b < B\<close>]] .
    have "val y [b, i, n, 0] = val tx [b, i, n, 0]"
      by (simp add: y_def val_slice_axis1)
    also have "\<dots> = (if i < k b then val trx [b, k b - 1 - i, n, 0] else val trx [b, i, n, 0])"
      unfolding tx_def using val_reverse_sequence4 [OF vke [OF \<open>b < B\<close>]] .
    also have "\<dots> = (if i < k b then val x [b, a b + i, n, 0] else 0)"
    proof (cases "i < k b")
      case True
      then have c: "k b - 1 - i < L" "\<not> k b \<le> k b - 1 - i" "k b - 1 - i < a b + k b"
        "a b + k b - 1 - (k b - 1 - i) = a b + i" using iL kl [OF \<open>b < B\<close>] by auto
      show ?thesis using True c vtrx [OF c(1)] by (simp add: vrx)
    next
      case False
      then show ?thesis using vtrx [OF iL] by simp
    qed
    finally show ?thesis .
  qed
  show ?thesis using run sy vy by blast
qed

lemma ComputeWindowedCumSum_general:
  assumes sy: "shape Y = [B, t, N, G]" and sp: "shape Pc = [B, t, 1, 1]"
    and sca: "shape cached = [B, W, N, 1]" and scpd: "shape cpads = [B, W]"
    and vcpd: "\<And>b j. b < B \<Longrightarrow> val cpads [b, j] = (if j < cc b then 0 else 1)"
    and scc: "shape ccount = [B]" and vcc: "\<And>b. b < B \<Longrightarrow> val ccount [b] = real (cc b)"
    and vli: "\<And>b. b < B \<Longrightarrow> val last_index [b, 0] = real (cc b - 1)"
    and sln: "shape lens = [B]" and vln: "\<And>b. b < B \<Longrightarrow> val lens [b] = real (len b)"
    and lenb: "\<And>b. len b = row_length (padded Pc b) t"
    and ccW: "\<And>b. b < B \<Longrightarrow> cc b \<le> W" and B: "0 < B"
  shows "\<exists>cs cat cpad. ComputeWindowedCumSum False 4 B t N W ccount last_index lens Y Pc
           cached cpads = Inr (cs, cat, cpad)
    \<and> shape cs = [B, t, N, 1] \<and> shape cat = [B, W + t, N, 1] \<and> shape cpad = [B, W + t, 1, 1]
    \<and> (\<forall>b j n. b < B \<and> j < W + t \<and> n < N \<longrightarrow> val cat [b, j, n, 0]
          = gconcat_val (cc b) t (\<lambda>j. val cached [b, j, n, 0])
              (\<lambda>i. sum_upto (Suc i) (masked_sum Y Pc b n) + val cached [b, cc b - 1, n, 0]) j)
    \<and> (\<forall>b j. b < B \<and> j < W + t \<longrightarrow>
          (val cpad [b, j, 0, 0] > 0) = gconcat_pad W (cc b) (len b) (padded Pc b) j)
    \<and> (\<forall>b i n. b < B \<and> i < t \<and> n < N \<longrightarrow> val cs [b, i, n, 0]
          = (if i < len b
             then windowed_at W
              (gconcat_val (cc b) t (\<lambda>j. val cached [b, j, n, 0])
                (\<lambda>i. sum_upto (Suc i) (masked_sum Y Pc b n) + val cached [b, cc b - 1, n, 0]))
              (gconcat_pad W (cc b) (len b) (padded Pc b)) (cc b + i)
             else 0))"
proof -
  obtain ci cp where rc: "reduce_current 4 Y Pc = (ci, cp)" by (cases "reduce_current 4 Y Pc")
  note r4 = reduce_current4 [OF sy sp, unfolded rc fst_conv snd_conv]
  define last where "last = reshape (gather_nd cached last_index) [B, 1, N, 1]"
  define cur where "cur = bop (+) ci last"
  have slast: "shape last = [B, 1, N, 1]" by (simp add: last_def)
  have vlast: "val last [b, 0, n, 0] = val cached [b, cc b - 1, n, 0]" if "b < B" "n < N" for b n
    unfolding last_def using gather_last4 [OF sca vli [OF that(1)] that] .
  have scur: "shape cur = [B, t, N, 1]"
    unfolding cur_def using shape_bop4_time [OF r4(1) slast] .
  have vcur: "val cur [b, i, n, 0]
      = sum_upto (Suc i) (masked_sum Y Pc b n) + val cached [b, cc b - 1, n, 0]"
    if "b < B" "i < t" "n < N" for b i n
    unfolding cur_def
    using val_bop4_time [OF r4(1) slast that] vlast [OF that(1,3)] r4(3) [OF that] by simp
  define cat where "cat = fst (ConcatenatePaddedSequences cached cur cpads cp)"
  define cpad where "cpad = snd (ConcatenatePaddedSequences cached cur cpads cp)"
  have cps1: "shape cat = [B, W + t, N, 1]"
    unfolding cat_def
    by (rule ConcatenatePaddedSequences_spec(1) [where cc = cc])
      (simp_all add: sca scur scpd r4(2) vcpd ccW)
  have cps2: "shape cpad = [B, W + t]"
    unfolding cpad_def
    by (rule ConcatenatePaddedSequences_spec(2) [where cc = cc and N = N])
      (simp_all add: sca scur scpd r4(2) vcpd ccW)
  have cps3: "val cat [b, j, n, 0]
         = gconcat_val (cc b) t (\<lambda>j. val cached [b, j, n, 0]) (\<lambda>i. val cur [b, i, n, 0]) j"
    if "b < B" "j < W + t" "n < N" for b j n
    unfolding cat_def
    by (rule ConcatenatePaddedSequences_spec(3) [where cc = cc and B = B and N = N and W = W])
      (simp_all add: sca scur scpd r4(2) vcpd ccW that)
  have cps4: "(val cpad [b, j] > 0)
         = gconcat_pad W (cc b) (row_length (\<lambda>k. val cp [b, k] > 0) t) (\<lambda>k. val cp [b, k] > 0) j"
    if "b < B" "j < W + t" for b j
    unfolding cpad_def
    by (rule ConcatenatePaddedSequences_spec(4) [where cc = cc and B = B and N = N and W = W])
      (simp_all add: sca scur scpd r4(2) vcpd ccW that)
  have cb: "concat_batch B N last_index ci cp cached cpads = Inr (cat, cpad)"
    unfolding concat_batch_def
    by (simp add: reshapeE_def shape_gather_nd [OF sca] bindE_def Let_def cat_def cpad_def
        cur_def last_def)
  let ?f = "\<lambda>b n. gconcat_val (cc b) t (\<lambda>j. val cached [b, j, n, 0])
              (\<lambda>i. sum_upto (Suc i) (masked_sum Y Pc b n) + val cached [b, cc b - 1, n, 0])"
  have vcat: "val cat [b, j, n, 0] = ?f b n j" if "b < B" "j < W + t" "n < N" for b j n
    using cps3 [OF that] vcur [OF that(1) _ that(3), of "j - cc b"] that(2)
    by (auto simp: gconcat_val_def)
  have pe: "(\<lambda>k. val cp [b, k] > 0) = padded Pc b" for b
    by (simp add: r4(4) padded_def [abs_def])
  have vcpad: "(val cpad [b, j] > 0) = gconcat_pad W (cc b) (len b) (padded Pc b) j"
    if "b < B" "j < W + t" for b j
    using cps4 [OF that] by (simp add: pe lenb)
  let ?c4 = "reshape cpad [B, prod_list (shape cpad) div B, 1, 1]"
  let ?w = "WindowedCumSum cat ?c4 (int W) (Suc 0)"
  have le0: "W \<le> W + t" by simp
  note wt = windowed_tail [OF cps1 cps2 le0 B]
  have lent: "len b \<le> t" for b unfolding lenb by (rule row_length_le)
  have kl: "cc b + len b \<le> W + t" if "b < B" for b
    using ccW [OF that] lent [of b] by simp
  have tle: "t \<le> W + t" by simp
  obtain y where tr: "TrimFromTheFront False B N ?w ccount lens t = Inr y"
    and sy': "shape y = [B, t, N, 1]"
    and vy: "\<And>b i n. b < B \<Longrightarrow> i < t \<Longrightarrow> n < N \<Longrightarrow>
       val y [b, i, n, 0] = (if i < len b then val ?w [b, cc b + i, n, 0] else 0)"
    using Trim_general [OF wt(3) scc sln vcc vln tle kl] by blast
  have dv: "B dvd prod_list (shape cpad)" by (simp add: cps2)
  have run: "ComputeWindowedCumSum False 4 B t N W ccount last_index lens Y Pc cached cpads
      = Inr (y, cat, ?c4)"
    unfolding ComputeWindowedCumSum_def rc using cb tr B dv
    by (simp add: bindE_def check_def Let_def)
  have v4: "(val ?c4 [b, j, 0, 0] > 0) = gconcat_pad W (cc b) (len b) (padded Pc b) j"
    if "b < B" "j < W + t" for b j
    using wt(2) [OF that] vcpad [OF that] by simp
  have vw: "val y [b, i, n, 0]
      = (if i < len b
         then windowed_at W (?f b n) (gconcat_pad W (cc b) (len b) (padded Pc b)) (cc b + i)
         else 0)"
    if "b < B" "i < t" "n < N" for b i n
  proof -
    have j: "cc b + i < W + t" using that ccW [OF that(1)] by simp
    have "val ?w [b, cc b + i, n, 0]
       = windowed_at W (\<lambda>j. val cat [b, j, n, 0]) (\<lambda>j. val cpad [b, j] > 0) (cc b + i)"
      using wt(4) [OF that(1) j that(3)] by simp
    also have "\<dots> = windowed_at W (?f b n) (gconcat_pad W (cc b) (len b) (padded Pc b)) (cc b + i)"
      using vcat [OF that(1) j that(3)] vcat [OF that(1), of "cc b + i - W" n]
        vcpad [OF that(1) j] j that(3)
      by (simp add: windowed_at_def)
    finally show ?thesis using vy [OF that] by simp
  qed
  show ?thesis using run sy' cps1 wt(1) vcat v4 vw by simp
qed

lemma gconcat_val_cong:
  assumes "\<And>k. k < t \<Longrightarrow> f k = g k"
  shows "gconcat_val cc t cached f j = gconcat_val cc t cached g j"
  using assms by (auto simp: gconcat_val_def)

lemma gwindowed_row_cong:
  assumes "\<And>k. k < t \<Longrightarrow> f k = g k"
  shows "gwindowed_row w cc t len cached f pad i = gwindowed_row w cc t len cached g pad i"
proof -
  have "\<And>j. gconcat_val cc t cached (cum_row cc cached f) j
      = gconcat_val cc t cached (cum_row cc cached g) j"
  proof (rule gconcat_val_cong)
    fix j k assume "k < t"
    then show "cum_row cc cached f k = cum_row cc cached g k"
      using cum_row_cong [of t f g k] assms by simp
  qed
  then show ?thesis by (simp add: gwindowed_row_def windowed_at_def)
qed

lemma gnew_cached_row_cong:
  assumes "\<And>k. k < t \<Longrightarrow> f k = g k"
  shows "gnew_cached_row w cc len cached f pad t j = gnew_cached_row w cc len cached g pad t j"
proof -
  have "\<And>j. gconcat_val cc t cached (cum_row cc cached f) j
      = gconcat_val cc t cached (cum_row cc cached g) j"
  proof (rule gconcat_val_cong)
    fix j k assume "k < t"
    then show "cum_row cc cached f k = cum_row cc cached g k"
      using cum_row_cong [of t f g k] assms by simp
  qed
  then show ?thesis by (simp add: gnew_cached_row_def)
qed

lemma reshape_count4:
  assumes "shape q = [B]" "b < B"
  shows "val (reshape q [B, 1, 1, 1]) [b, 0, 0, 0] = val q [b]"
  by (rule val_reshape_flat) (use assms in \<open>simp_all add: flat_index_def\<close>)

lemma StreamWindowedMoments_general:
  assumes pw: "p_window_size p = int W"
    and sx: "shape Xc = [B, t, N, G]" and sp: "shape Pc = [B, t, 1, 1]"
    and ss: "shape s = [B, W, N, 1]" and sv: "shape v = [B, W, N, 1]"
    and sc: "shape c = [B, 1, 1, 1]"
    and vc: "\<And>b. b < B \<Longrightarrow> val c [b, 0, 0, 0] = real (cc b)"
    and ccW: "\<And>b. b < B \<Longrightarrow> cc b \<le> W"
    and B: "0 < B"
  shows "\<exists>m var s' v' c'.
      StreamWindowedMoments_path False p Xc (Some Pc) (WindowedState s v c)
        = Inr (m, var, WindowedState s' v' c')
    \<and> shape m = [B, t, N, 1] \<and> shape var = [B, t, N, 1]
    \<and> shape s' = [B, W, N, 1] \<and> shape v' = [B, W, N, 1] \<and> shape c' = [B, 1, 1, 1]
    \<and> (\<forall>b i n. b < B \<and> i < t \<and> n < N \<longrightarrow>
          val m [b, i, n, 0]
            = gwindowed_row W (cc b) t (row_length (padded Pc b) t) (\<lambda>j. val s [b, j, n, 0])
                (masked_sum Xc Pc b n) (padded Pc b) i
              / max (step_count W (cc b) (padded Pc b) i * real G) 1
        \<and> val var [b, i, n, 0]
            = gwindowed_row W (cc b) t (row_length (padded Pc b) t) (\<lambda>j. val v [b, j, n, 0])
                (masked_sq Xc Pc (\<lambda>k. val m [b, k, n, 0]) b n) (padded Pc b) i
              / max (step_count W (cc b) (padded Pc b) i * real G) 1)
    \<and> (\<forall>b. b < B \<longrightarrow> val c' [b, 0, 0, 0]
          = real (gnew_count W (cc b) (row_length (padded Pc b) t) (padded Pc b) t))
    \<and> (\<forall>b j n. b < B \<and> j < W \<and> n < N \<longrightarrow>
          val s' [b, j, n, 0]
            = gnew_cached_row W (cc b) (row_length (padded Pc b) t) (\<lambda>j. val s [b, j, n, 0])
                (masked_sum Xc Pc b n) (padded Pc b) t j
        \<and> val v' [b, j, n, 0]
            = gnew_cached_row W (cc b) (row_length (padded Pc b) t) (\<lambda>j. val v [b, j, n, 0])
                (masked_sq Xc Pc (\<lambda>k. val m [b, k, n, 0]) b n) (padded Pc b) t j)"
proof -
  define len where "len = (\<lambda>b. row_length (padded Pc b) t)"
  define pad where "pad = padded Pc"
  let ?ccount = "squeeze c [1, 2, 3]"
  let ?cpads = "PaddingsFromLengths ?ccount W"
  let ?li = "cast (expand_dims (tmap (\<lambda>c. max c 0) (tmap (\<lambda>c. c - 1) ?ccount)) 1) int32"
  let ?lens = "cast (LengthsFromPaddings (index_00 Pc)) int32"
  have r4: "rank Xc = 4" by (simp add: rank_def sx)
  have sccount: "shape ?ccount = [B]" using shape_squeeze123 [OF sc] .
  have vcc: "val ?ccount [b] = real (cc b)" if "b < B" for b
    using val_squeeze123 [OF sc, of b] vc [OF that] by simp
  have scpd: "shape ?cpads = [B, W]" using shape_PaddingsFromLengths [OF sccount] .
  have vcpd: "val ?cpads [b, j] = (if j < cc b then 0 else 1)" if "b < B" for b j
    using val_PaddingsFromLengths [OF vcc [OF that]] by simp
  have vli: "val ?li [b, 0] = real (cc b - 1)" if "b < B" for b
    using vcc [OF that] by (simp add: cast_def val_expand_dims1 max_real_pred)
  have lent: "len b \<le> t" for b unfolding len_def by (rule row_length_le)
  have slen: "shape ?lens = [B]"
    using shape_LengthsFromPaddings [OF shape_index_00 [OF sp]] by simp
  have vln0: "val (LengthsFromPaddings (index_00 Pc)) [b] = real (len b)" for b
    using val_LengthsFromPaddings [OF shape_index_00 [OF sp], of b]
    by (simp add: val_index_00 len_def padded_def [abs_def])
  have vln: "val ?lens [b] = real (len b)" for b using vln0 [of b] by (simp add: cast_def)
  have lenb: "len b = row_length (padded Pc b) t" for b by (simp add: len_def)
  obtain sum_v cat1 cpad where
    c1: "ComputeWindowedCumSum False 4 B t N W ?ccount ?li ?lens Xc Pc s ?cpads
           = Inr (sum_v, cat1, cpad)"
    and ssum: "shape sum_v = [B, t, N, 1]" and scat1: "shape cat1 = [B, W + t, N, 1]"
    and scpad: "shape cpad = [B, W + t, 1, 1]"
    and vcat1: "\<And>b j n. b < B \<Longrightarrow> j < W + t \<Longrightarrow> n < N \<Longrightarrow> val cat1 [b, j, n, 0]
          = gconcat_val (cc b) t (\<lambda>j. val s [b, j, n, 0])
              (\<lambda>i. sum_upto (Suc i) (masked_sum Xc Pc b n) + val s [b, cc b - 1, n, 0]) j"
    and vcpad: "\<And>b j. b < B \<Longrightarrow> j < W + t \<Longrightarrow>
          (val cpad [b, j, 0, 0] > 0) = gconcat_pad W (cc b) (len b) (pad b) j"
    and vsum: "\<And>b i n. b < B \<Longrightarrow> i < t \<Longrightarrow> n < N \<Longrightarrow> val sum_v [b, i, n, 0]
          = (if i < len b
             then windowed_at W
              (gconcat_val (cc b) t (\<lambda>j. val s [b, j, n, 0])
                (\<lambda>i. sum_upto (Suc i) (masked_sum Xc Pc b n) + val s [b, cc b - 1, n, 0]))
              (gconcat_pad W (cc b) (len b) (pad b)) (cc b + i)
             else 0)"
    using ComputeWindowedCumSum_general [of Xc B t N G Pc s W ?cpads cc ?ccount ?li ?lens len,
        OF sx sp ss scpd vcpd sccount vcc vli slen vln lenb ccW B]
    unfolding pad_def by blast
  let ?count = "GetUpdatedCount B W (dtype Xc) ?ccount Pc"
  note gc = GetUpdatedCount_spec [OF sp sccount, where W = W and dt = "dtype Xc"]
  let ?div = "tmap (\<lambda>c. max (c * real G) 1) ?count"
  have sdiv: "shape ?div = [B, t, 1, 1]" using gc(1) by simp
  have vdiv: "val ?div [b, i, 0, 0] = max (step_count W (cc b) (pad b) i * real G) 1"
    if "b < B" "i < t" for b i
    using gc(2) [OF that] vcc [OF that(1)] by (simp add: step_count_def pad_def)
  define mean where "mean = bop (/) sum_v ?div"
  have smean: "shape mean = [B, t, N, 1]"
    unfolding mean_def using shape_bop4_N1 [OF ssum sdiv] .
  have vmean: "val mean [b, i, n, 0]
      = gwindowed_row W (cc b) t (len b) (\<lambda>j. val s [b, j, n, 0]) (masked_sum Xc Pc b n) (pad b) i
          / max (step_count W (cc b) (pad b) i * real G) 1" if "b < B" "i < t" "n < N" for b i n
    unfolding mean_def
    using val_bop4_N1 [OF ssum sdiv that] vsum [OF that] vdiv [OF that(1,2)]
    by (simp add: gwindowed_row_def cum_row_def [abs_def])
  let ?Y = "squared_difference Xc mean"
  have sY: "shape ?Y = [B, t, N, G]" using shape_sqdiff4 [OF sx smean] .
  obtain sum_vv cat2 cpad2 where
    c2: "ComputeWindowedCumSum False 4 B t N W ?ccount ?li ?lens ?Y Pc v ?cpads
           = Inr (sum_vv, cat2, cpad2)"
    and ssumv: "shape sum_vv = [B, t, N, 1]" and scat2: "shape cat2 = [B, W + t, N, 1]"
    and vcat2: "\<And>b j n. b < B \<Longrightarrow> j < W + t \<Longrightarrow> n < N \<Longrightarrow> val cat2 [b, j, n, 0]
          = gconcat_val (cc b) t (\<lambda>j. val v [b, j, n, 0])
              (\<lambda>i. sum_upto (Suc i) (masked_sum ?Y Pc b n) + val v [b, cc b - 1, n, 0]) j"
    and vsumv: "\<And>b i n. b < B \<Longrightarrow> i < t \<Longrightarrow> n < N \<Longrightarrow> val sum_vv [b, i, n, 0]
          = (if i < len b
             then windowed_at W
              (gconcat_val (cc b) t (\<lambda>j. val v [b, j, n, 0])
                (\<lambda>i. sum_upto (Suc i) (masked_sum ?Y Pc b n) + val v [b, cc b - 1, n, 0]))
              (gconcat_pad W (cc b) (len b) (pad b)) (cc b + i)
             else 0)"
    using ComputeWindowedCumSum_general [of ?Y B t N G Pc v W ?cpads cc ?ccount ?li ?lens len,
        OF sY sp sv scpd vcpd sccount vcc vli slen vln lenb ccW B]
    unfolding pad_def by blast
  have fr: "masked_sum ?Y Pc b n k = masked_sq Xc Pc (\<lambda>k. val mean [b, k, n, 0]) b n k"
    if "b < B" "k < t" "n < N" for b k n
    using masked_sum_sqdiff [OF sx smean that] by simp
  define var where "var = bop (/) sum_vv ?div"
  have svar: "shape var = [B, t, N, 1]"
    unfolding var_def using shape_bop4_N1 [OF ssumv sdiv] .
  have vvar: "val var [b, i, n, 0]
      = gwindowed_row W (cc b) t (len b) (\<lambda>j. val v [b, j, n, 0])
          (masked_sq Xc Pc (\<lambda>k. val mean [b, k, n, 0]) b n) (pad b) i
          / max (step_count W (cc b) (pad b) i * real G) 1" if "b < B" "i < t" "n < N" for b i n
  proof -
    have "val var [b, i, n, 0]
      = gwindowed_row W (cc b) t (len b) (\<lambda>j. val v [b, j, n, 0]) (masked_sum ?Y Pc b n) (pad b) i
          / max (step_count W (cc b) (pad b) i * real G) 1"
      unfolding var_def
      using val_bop4_N1 [OF ssumv sdiv that] vsumv [OF that] vdiv [OF that(1,2)]
      by (simp add: gwindowed_row_def cum_row_def [abs_def])
    then show ?thesis
      using gwindowed_row_cong [of t "masked_sum ?Y Pc b n"
          "masked_sq Xc Pc (\<lambda>k. val mean [b, k, n, 0]) b n"] fr that(1,3)
      by simp
  qed
  define il where "il = (\<lambda>b. row_length (gconcat_pad W (cc b) (len b) (pad b)) (W + t))"
  let ?ilt = "cast (LengthsFromPaddings (index_00 cpad)) float32"
  let ?ncc = "tmap (\<lambda>c. min c (real W)) ?ilt"
  let ?trim = "bop (-) ?ilt ?ncc"
  have sil: "shape (LengthsFromPaddings (index_00 cpad)) = [B]"
    using shape_LengthsFromPaddings [OF shape_index_00 [OF scpad]] .
  have silt: "shape ?ilt = [B]" and sncc: "shape ?ncc = [B]" using sil by simp_all
  have strim: "shape ?trim = [B]" using shape_bop1 [OF silt sncc] .
  have vil: "val ?ilt [b] = real (il b)" if "b < B" for b
    using val_LengthsFromPaddings [OF shape_index_00 [OF scpad], of b]
      row_length_cong [of "W + t" "\<lambda>k. 0 < val cpad [b, k, 0, 0]"
        "gconcat_pad W (cc b) (len b) (pad b)"] vcpad [OF that]
    by (simp add: cast_def val_index_00 il_def)
  have vncc: "val ?ncc [b] = real (min (il b) W)" if "b < B" for b using vil [OF that] by simp
  have vtrim: "val ?trim [b] = real (il b - min (il b) W)" if "b < B" for b
    using val_bop1 [OF silt sncc that, of "(-)"] vil [OF that] vncc [OF that] by simp
  have ilb: "il b \<le> W + t" for b unfolding il_def by (rule row_length_le)
  have kl: "il b - min (il b) W + min (il b) W \<le> W + t" if "b < B" for b
    using ilb [of b] by simp
  have Wle: "W \<le> W + t" by simp
  obtain s' where t1: "TrimFromTheFront False B N cat1 ?trim ?ncc W = Inr s'"
    and ss': "shape s' = [B, W, N, 1]"
    and vs': "\<And>b j n. b < B \<Longrightarrow> j < W \<Longrightarrow> n < N \<Longrightarrow> val s' [b, j, n, 0]
       = (if j < min (il b) W then val cat1 [b, il b - min (il b) W + j, n, 0] else 0)"
    using Trim_general [OF scat1 strim sncc vtrim vncc Wle kl] by blast
  obtain v' where t2: "TrimFromTheFront False B N cat2 ?trim ?ncc W = Inr v'"
    and sv': "shape v' = [B, W, N, 1]"
    and vv': "\<And>b j n. b < B \<Longrightarrow> j < W \<Longrightarrow> n < N \<Longrightarrow> val v' [b, j, n, 0]
       = (if j < min (il b) W then val cat2 [b, il b - min (il b) W + j, n, 0] else 0)"
    using Trim_general [OF scat2 strim sncc vtrim vncc Wle kl] by blast
  let ?c' = "reshape ?ncc [B, 1, 1, 1]"
  have vc': "val ?c' [b, 0, 0, 0] = real (min (il b) W)" if "b < B" for b
    using reshape_count4 [OF sncc that] vncc [OF that] by simp
  have run: "StreamWindowedMoments_path False p Xc (Some Pc) (WindowedState s v c)
        = Inr (mean, var, WindowedState s' v' ?c')"
    unfolding StreamWindowedMoments_path_def
    using c1 c2 t1 t2
    by (simp add: pw r4 sx sp ss sv sc bindE_def check_def HasShape_def Let_def
        state_cached_count_def state_cached_sums_def state_cached_vars_def
        mean_def var_def)
  have gn: "gnew_cached_row W (cc b) (len b) cached frame (pad b) t j
      = (if j < min (il b) W
         then gconcat_val (cc b) t cached (cum_row (cc b) cached frame) (il b - min (il b) W + j)
         else 0)" for b cached frame j
    by (simp add: gnew_cached_row_def gnew_count_def il_def)
  have inb: "il b - min (il b) W + j < W + t" if "j < min (il b) W" for b j
    using ilb [of b] that by (auto simp: min_def)
  have vs'': "val s' [b, j, n, 0]
      = gnew_cached_row W (cc b) (len b) (\<lambda>j. val s [b, j, n, 0]) (masked_sum Xc Pc b n)
          (pad b) t j"
    if "b < B" "j < W" "n < N" for b j n
  proof (cases "j < min (il b) W")
    case True
    show ?thesis
      unfolding gn vs' [OF that] using True vcat1 [OF that(1) inb [OF True] that(3)]
      by (simp add: cum_row_def [abs_def])
  next
    case False
    then show ?thesis unfolding gn vs' [OF that] by auto
  qed
  have vv'': "val v' [b, j, n, 0]
      = gnew_cached_row W (cc b) (len b) (\<lambda>j. val v [b, j, n, 0])
          (masked_sq Xc Pc (\<lambda>k. val mean [b, k, n, 0]) b n) (pad b) t j"
    if "b < B" "j < W" "n < N" for b j n
  proof -
    have "val v' [b, j, n, 0]
      = gnew_cached_row W (cc b) (len b) (\<lambda>j. val v [b, j, n, 0]) (masked_sum ?Y Pc b n)
          (pad b) t j"
    proof (cases "j < min (il b) W")
      case True
      show ?thesis
        unfolding gn vv' [OF that] using True vcat2 [OF that(1) inb [OF True] that(3)]
        by (simp add: cum_row_def [abs_def])
    next
      case False
      then show ?thesis unfolding gn vv' [OF that] by auto
    qed
    then show ?thesis
      using gnew_cached_row_cong [of t "masked_sum ?Y Pc b n"
          "masked_sq Xc Pc (\<lambda>k. val mean [b, k, n, 0]) b n"] fr that(1,3)
      by simp
  qed
  have sc': "shape ?c' = [B, 1, 1, 1]" by simp
  show ?thesis
  proof (intro exI conjI)
    show "StreamWindowedMoments_path False p Xc (Some Pc) (WindowedState s v c)
        = Inr (mean, var, WindowedState s' v' ?c')" by (rule run)
    show "shape mean = [B, t, N, 1]" by (rule smean)
    show "shape var = [B, t, N, 1]" by (rule svar)
    show "shape s' = [B, W, N, 1]" by (rule ss')
    show "shape v' = [B, W, N, 1]" by (rule sv')
    show "shape ?c' = [B, 1, 1, 1]" by (rule sc')
    show "\<forall>b i n. b < B \<and> i < t \<and> n < N \<longrightarrow>
          val mean [b, i, n, 0]
            = gwindowed_row W (cc b) t (row_length (padded Pc b) t) (\<lambda>j. val s [b, j, n, 0])
                (masked_sum Xc Pc b n) (padded Pc b) i
              / max (step_count W (cc b) (padded Pc b) i * real G) 1
        \<and> val var [b, i, n, 0]
            = gwindowed_row W (cc b) t (row_length (padded Pc b) t) (\<lambda>j. val v [b, j, n, 0])
                (masked_sq Xc Pc (\<lambda>k. val mean [b, k, n, 0]) b n) (padded Pc b) i
              / max (step_count W (cc b) (padded Pc b) i * real G) 1"
      using vmean vvar unfolding len_def pad_def by blast
    show "\<forall>b. b < B \<longrightarrow> val ?c' [b, 0, 0, 0]
          = real (gnew_count W (cc b) (row_length (padded Pc b) t) (padded Pc b) t)"
      using vc' unfolding gnew_count_def il_def len_def pad_def by blast
    show "\<forall>b j n. b < B \<and> j < W \<and> n < N \<longrightarrow>
          val s' [b, j, n, 0]
            = gnew_cached_row W (cc b) (row_length (padded Pc b) t) (\<lambda>j. val s [b, j, n, 0])
                (masked_sum Xc Pc b n) (padded Pc b) t j
        \<and> val v' [b, j, n, 0]
            = gnew_cached_row W (cc b) (row_length (padded Pc b) t) (\<lambda>j. val v [b, j, n, 0])
                (masked_sq Xc Pc (\<lambda>k. val mean [b, k, n, 0]) b n) (padded Pc b) t j"
      using vs'' vv'' unfolding len_def pad_def by blast
  qed
qed
section \<open>Construction-time configuration errors\<close>

text \<open>
  C8. Construction fails for every configuration in which \<open>dim\<close> is not divisible by
  \<open>min_group_size\<close>, or \<open>dim \<ge> num_groups\<close> and \<open>dim\<close> is not divisible by
  \<open>num_groups\<close>, or \<open>window_size > 0\<close> while \<open>cumulative\<close> is false, or
  \<open>window_size = 1\<close>. The failure is a value of \<open>init\<close>, the constructor, which
  reads the parameters only: no tensor has been seen when it fails.
\<close>

theorem init_rejects_bad_configuration:
  "\<not> p_min_group_size p dvd p_dim p
    \<or> (p_dim p \<ge> p_num_groups p \<and> \<not> p_num_groups p dvd p_dim p)
    \<or> (p_window_size p > 0 \<and> \<not> p_cumulative p)
    \<or> p_window_size p = 1
   \<Longrightarrow> init p = Inl AssertionError"
  by (auto simp: init_def dvd_eq_mod_eq_0)

theorem init_rejects_bad_configuration_witness:
  "p_window_size ((Params ''gn'' 64) \<lparr> p_cumulative := True, p_window_size := 1 \<rparr>) = 1
   \<and> init ((Params ''gn'' 64) \<lparr> p_cumulative := True, p_window_size := 1 \<rparr>)
       = Inl AssertionError"
  using init_rejects_bad_configuration
    [of "(Params ''gn'' 64) \<lparr> p_cumulative := True, p_window_size := 1 \<rparr>"]
  by (simp add: Params_def)

section \<open>The group partition\<close>





section \<open>The concrete scenario of the batch estimator\<close>

text \<open>
  C2, as the claim states it, fails: on the input \<open>[[1,2,3,4]]\<close> without padding, with
  \<open>cumulative_axis = 1\<close> and \<open>cumsum_window_size = 2\<close>, the means are
  \<open>1, 3/2, 5/2, 7/2\<close> but the variances are not \<open>0, 1/4, 1/4, 1/4\<close>.
\<close>

theorem ComputeMoments_scenario_counterexample:
  "moments_values (ComputeMoments local_env (tensor_of_list [1, 4, 1, 1] [1, 2, 3, 4])
      (tensor_of_list [1, 4, 1, 1] [0, 0, 0, 0]) [3] (Some 1) False True (Some 2))
   \<noteq> Inr ([1, 3 / 2, 5 / 2, 7 / 2], [0, 1 / 4, 1 / 4, 1 / 4])"
  by code_simp

text \<open>
  C2, amended. On that input the means at \<open>t = 0, 1, 2, 3\<close> are \<open>1, 3/2, 5/2, 7/2\<close> and
  the variances are \<open>0, 1/8, 1/4, 1/4\<close>: each squared deviation is taken from the mean
  of its own position, so at \<open>t = 1\<close> the window holds \<open>(1 - 1)\<^sup>2\<close> and \<open>(2 - 3/2)\<^sup>2\<close>.
\<close>

theorem ComputeMoments_scenario:
  "moments_values (ComputeMoments local_env (tensor_of_list [1, 4, 1, 1] [1, 2, 3, 4])
      (tensor_of_list [1, 4, 1, 1] [0, 0, 0, 0]) [3] (Some 1) False True (Some 2))
   = Inr ([1, 3 / 2, 5 / 2, 7 / 2], [0, 1 / 8, 1 / 4, 1 / 4])"
  by code_simp


end
